theory Spec2Isabelle
  imports Main
begin

section \<open>Python strings\<close>

text \<open>
  A Python \<open>str\<close> is modelled as a \<^typ>\<open>string\<close>; a \<^typ>\<open>char\<close> stands for a code point
  below 256, so the model covers the texts whose code points are all below 256.
  \<open>isspace\<close> is \<open>str.isspace\<close> on one such code point.
\<close>

definition isspace :: "char \<Rightarrow> bool" where
  "isspace c = (of_char c \<in> {9, 10, 11, 12, 13, 28, 29, 30, 31, 32, 133, 160 :: nat})"

text \<open>\<open>s.startswith(p)\<close>.\<close>

definition startswith :: "string \<Rightarrow> string \<Rightarrow> bool" where
  "startswith s p = (take (length p) s = p)"

text \<open>\<open>s.strip()\<close> with no argument.\<close>

definition strip :: "string \<Rightarrow> string" where
  "strip s = rev (dropWhile isspace (rev (dropWhile isspace s)))"

text \<open>
  \<open>s.split()\<close> with no argument: the maximal runs of non-whitespace characters.
  \<open>cur\<close> is the token being read.
\<close>

fun split_ws :: "string \<Rightarrow> string \<Rightarrow> string list" where
  "split_ws cur [] = (if cur = [] then [] else [cur])"
| "split_ws cur (c # cs) =
     (if isspace c then (if cur = [] then split_ws [] cs else cur # split_ws [] cs)
      else split_ws (cur @ [c]) cs)"

definition split :: "string \<Rightarrow> string list" where
  "split s = split_ws [] s"

text \<open>\<open>s.split(sep, 1)\<close> for a one-character separator: one or two pieces.\<close>

definition split1 :: "char \<Rightarrow> string \<Rightarrow> string list" where
  "split1 sep s =
     (if sep \<in> set s
      then [takeWhile (\<lambda>c. c \<noteq> sep) s, tl (dropWhile (\<lambda>c. c \<noteq> sep) s)]
      else [s])"

text \<open>\<open>str(n)\<close> for an integer \<open>n\<close>.\<close>

function str_nat :: "nat \<Rightarrow> string" where
  "str_nat n =
     (if n < 10 then [''0123456789'' ! n]
      else str_nat (n div 10) @ [''0123456789'' ! (n mod 10)])"
  by pat_completeness auto
termination
  by (relation "measure id") auto

declare str_nat.simps [simp del]

definition str_int :: "int \<Rightarrow> string" where
  "str_int i = (if i < 0 then CHR ''-'' # str_nat (nat (- i)) else str_nat (nat i))"

text \<open>\<open>'{}'.format(x)\<close> for \<open>x\<close> a string or \<open>None\<close>.\<close>

definition format_opt :: "string option \<Rightarrow> string" where
  "format_opt x = (case x of None \<Rightarrow> ''None'' | Some s \<Rightarrow> s)"

section \<open>Errors and values\<close>

text \<open>
  Every way the source leaves a function without a result: a failed \<open>assert\<close> (with its
  message), the exceptions of an index, a key or an attribute that is not there, a failed
  tuple unpacking, and \<open>sys.exit\<close> (with its message).
\<close>

datatype error =
    AssertionError string
  | IndexError
  | KeyError
  | AttributeError
  | ValueError
  | SystemExit string

text \<open>
  A dictionary of parsed options is an \<open>OrderedDict\<close> from strings to strings: an
  association list in insertion order, with at most one entry for a key.
\<close>

type_synonym dict = "(string \<times> string) list"

definition dict_in :: "string \<Rightarrow> dict \<Rightarrow> bool" where
  "dict_in k d = (map_of d k \<noteq> None)"

definition dict_get :: "dict \<Rightarrow> string \<Rightarrow> string option" where
  "dict_get d k = map_of d k"

fun dict_set :: "dict \<Rightarrow> string \<Rightarrow> string \<Rightarrow> dict" where
  "dict_set [] k v = [(k, v)]"
| "dict_set (p # ps) k v = (if fst p = k then (k, v) # ps else p # dict_set ps k v)"

text \<open>
  The \<open>data\<close> handed to a population pass is a dictionary of options or a tuple of
  integers (the kernel version).
\<close>

datatype pyval = Dict dict | Tuple "int list"

text \<open>\<open>v[i]\<close> for an integer index \<open>i \<ge> 0\<close>; the keys of a dictionary here are strings.\<close>

definition getitem :: "pyval \<Rightarrow> nat \<Rightarrow> error + int" where
  "getitem v i =
     (case v of
        Dict d \<Rightarrow> Inl KeyError
      | Tuple xs \<Rightarrow> (if i < length xs then Inr (xs ! i) else Inl IndexError))"

section \<open>Checks\<close>

text \<open>
  \<open>OptCheck\<close> with its subclasses \<open>KconfigCheck\<close> and \<open>CmdlineCheck\<close>, \<open>VersionCheck\<close>,
  and \<open>ComplexOptCheck\<close> with its subclasses \<open>OR\<close> and \<open>AND\<close>. The field \<open>result\<close> of a
  \<open>VersionCheck\<close> is \<open>ver_result\<close> here; \<open>ver_expected\<close> is the pair the catalogue gives.
\<close>

record OptCheck =
  name :: string
  expected :: "string option"
  decision :: string
  reason :: string
  state :: "string option"
  result :: "string option"

record VersionCheck =
  ver_expected :: "int \<times> int"
  ver :: pyval
  ver_result :: "string option"

datatype opt =
    Kconfig OptCheck
  | Cmdline OptCheck
  | Version VersionCheck
  | OR "opt list" "string option"
  | AND "opt list" "string option"

text \<open>The attributes and properties \<open>type\<close>, \<open>result\<close>, \<open>name\<close> and \<open>expected\<close> of a check.\<close>

fun type_of :: "opt \<Rightarrow> string" where
  "type_of (Kconfig c) = ''kconfig''"
| "type_of (Cmdline c) = ''cmdline''"
| "type_of (Version v) = ''version''"
| "type_of (OR opts res) = ''complex''"
| "type_of (AND opts res) = ''complex''"

fun result_of :: "opt \<Rightarrow> string option" where
  "result_of (Kconfig c) = result c"
| "result_of (Cmdline c) = result c"
| "result_of (Version v) = ver_result v"
| "result_of (OR opts res) = res"
| "result_of (AND opts res) = res"

fun name_of :: "opt \<Rightarrow> error + string" where
  "name_of (Kconfig c) = Inr (name c)"
| "name_of (Cmdline c) = Inr (name c)"
| "name_of (Version v) = Inl AttributeError"
| "name_of (OR [] res) = Inl IndexError"
| "name_of (OR (opt # opts) res) = name_of opt"
| "name_of (AND [] res) = Inl IndexError"
| "name_of (AND (opt # opts) res) = name_of opt"

fun expected_of :: "opt \<Rightarrow> error + string option" where
  "expected_of (Kconfig c) = Inr (expected c)"
| "expected_of (Cmdline c) = Inr (expected c)"
| "expected_of (Version v) = Inl AttributeError"
| "expected_of (OR [] res) = Inl IndexError"
| "expected_of (OR (opt # opts) res) = expected_of opt"
| "expected_of (AND [] res) = Inl IndexError"
| "expected_of (AND (opt # opts) res) = expected_of opt"

subsection \<open>\<open>OptCheck.check\<close>\<close>

definition OptCheck_check :: "OptCheck \<Rightarrow> OptCheck" where
  \<open>OptCheck_check self =
     (case expected self of
        None \<Rightarrow>
          (case state self of
             None \<Rightarrow> self\<lparr>result := Some ''FAIL: not present''\<rparr>
           | Some s \<Rightarrow> self\<lparr>result := Some ''OK: is present''\<rparr>)
      | Some e \<Rightarrow>
          (if Some e = state self then self\<lparr>result := Some ''OK''\<rparr>
           else
             (case state self of
                None \<Rightarrow>
                  (if e = ''is not set'' then self\<lparr>result := Some ''OK: not found''\<rparr>
                   else self\<lparr>result := Some ''FAIL: not found''\<rparr>)
              | Some s \<Rightarrow> self\<lparr>result := Some (''FAIL: "'' @ s @ ''"'')\<rparr>)))\<close>

subsection \<open>\<open>VersionCheck.check\<close>\<close>

definition version_ok :: "VersionCheck \<Rightarrow> VersionCheck" where
  "version_ok self =
     self\<lparr>ver_result := Some (''OK: version >= '' @ str_int (fst (ver_expected self))
        @ ''.'' @ str_int (snd (ver_expected self)))\<rparr>"

definition version_fail :: "VersionCheck \<Rightarrow> VersionCheck" where
  "version_fail self =
     self\<lparr>ver_result := Some (''FAIL: version < '' @ str_int (fst (ver_expected self))
        @ ''.'' @ str_int (snd (ver_expected self)))\<rparr>"

definition VersionCheck_check :: "VersionCheck \<Rightarrow> error + VersionCheck" where
  "VersionCheck_check self =
     (case getitem (ver self) 0 of
        Inl e \<Rightarrow> Inl e
      | Inr v0 \<Rightarrow>
          if v0 > fst (ver_expected self) then Inr (version_ok self)
          else if v0 < fst (ver_expected self) then Inr (version_fail self)
          else
            (case getitem (ver self) 1 of
               Inl e \<Rightarrow> Inl e
             | Inr v1 \<Rightarrow>
                 if v1 \<ge> snd (ver_expected self) then Inr (version_ok self)
                 else Inr (version_fail self)))"

subsection \<open>\<open>OR.check\<close> and \<open>AND.check\<close>\<close>

text \<open>
  The body of \<open>if i != 0\<close> in \<open>OR.check\<close>: the new \<open>self.result\<close> for a child \<open>opt\<close> that
  passed with the result \<open>r\<close>, or the failed assertion.
\<close>

definition OR_more_info :: "opt \<Rightarrow> string \<Rightarrow> error + string" where
  \<open>OR_more_info opt r =
     (if r = ''OK'' then
        (case name_of opt of
           Inl e \<Rightarrow> Inl e
         | Inr n \<Rightarrow>
             (case expected_of opt of
                Inl e \<Rightarrow> Inl e
              | Inr ex \<Rightarrow> Inr (''OK: '' @ n @ '' "'' @ format_opt ex @ ''"'')))
      else if r = ''OK: not found'' then
        (case name_of opt of Inl e \<Rightarrow> Inl e | Inr n \<Rightarrow> Inr (''OK: '' @ n @ '' not found''))
      else if r = ''OK: is present'' then
        (case name_of opt of Inl e \<Rightarrow> Inl e | Inr n \<Rightarrow> Inr (''OK: '' @ n @ '' is present''))
      else if startswith r ''OK: version'' then Inr r
      else Inl (AssertionError (''unexpected OK description "'' @ r @ ''"'')))\<close>

text \<open>
  The body of \<open>if not opt.result.startswith('OK')\<close> in \<open>AND.check\<close>: the new
  \<open>self.result\<close> for a child \<open>opt\<close> that failed with the result \<open>r\<close>, or the failed
  assertion.
\<close>

definition AND_describe :: "opt \<Rightarrow> string \<Rightarrow> error + string" where
  \<open>AND_describe opt r =
     (if startswith r ''FAIL: "'' \<or> r = ''FAIL: not found'' then
        (case name_of opt of
           Inl e \<Rightarrow> Inl e
         | Inr n \<Rightarrow>
             (case expected_of opt of
                Inl e \<Rightarrow> Inl e
              | Inr ex \<Rightarrow> Inr (''FAIL: '' @ n @ '' not "'' @ format_opt ex @ ''"'')))
      else if r = ''FAIL: not present'' then
        (case name_of opt of Inl e \<Rightarrow> Inl e | Inr n \<Rightarrow> Inr (''FAIL: '' @ n @ '' not present''))
      else if startswith r ''FAIL: version'' then Inr r
      else Inl (AssertionError (''unexpected FAIL description "'' @ r @ ''"'')))\<close>

lemma size_list_snd_enumerate [simp]:
  "size_list (\<lambda>p. f (snd p)) (enumerate n xs) = size_list f xs"
  by (induction xs arbitrary: n) simp_all

lemma size_list_rev [simp]: "size_list f (rev xs) = size_list f xs"
  by (induction xs) simp_all

text \<open>
  \<open>check\<close> is the method \<open>check\<close> of every class; it returns the check with the \<open>result\<close>
  fields it has set, or the exception that ended it. Of a run that an exception ends,
  the exception alone is kept: the fields assigned before it (\<open>OR.check\<close> and
  \<open>AND.check\<close> assign \<open>self.result\<close> before their \<open>assert\<close>) are not part of the value. \<open>OR_loop\<close> is the \<open>for\<close> loop of
  \<open>OR.check\<close> over \<open>enumerate(self.opts)\<close>: it returns the children as the loop leaves
  them and \<open>Some\<close> of the \<open>self.result\<close> it returned with, or \<open>None\<close> when the loop ran to
  its end. \<open>AND_loop\<close> is the \<open>for\<close> loop of \<open>AND.check\<close> over
  \<open>reversed(list(enumerate(self.opts)))\<close>, from the value \<open>res\<close> of \<open>self.result\<close>: it
  returns the children as the loop leaves them and the \<open>self.result\<close> it leaves.
\<close>

function check :: "opt \<Rightarrow> error + opt"
  and OR_loop :: "(nat \<times> opt) list \<Rightarrow> error + ((nat \<times> opt) list \<times> string option)"
  and AND_loop :: "(nat \<times> opt) list \<Rightarrow> string option \<Rightarrow> error + ((nat \<times> opt) list \<times> string option)"
where
  "check (Kconfig c) = Inr (Kconfig (OptCheck_check c))"
| "check (Cmdline c) = Inr (Cmdline (OptCheck_check c))"
| "check (Version v) =
     (case VersionCheck_check v of Inl e \<Rightarrow> Inl e | Inr v' \<Rightarrow> Inr (Version v'))"
| "check (OR opts res) =
     (case OR_loop (enumerate 0 opts) of
        Inl e \<Rightarrow> Inl e
      | Inr (opts', Some r) \<Rightarrow> Inr (OR (map snd opts') (Some r))
      | Inr (opts', None) \<Rightarrow>
          (case map snd opts' of
             [] \<Rightarrow> Inl IndexError
           | opt0 # rest \<Rightarrow> Inr (OR (map snd opts') (result_of opt0))))"
| "check (AND opts res) =
     (case AND_loop (rev (enumerate 0 opts)) res of
        Inl e \<Rightarrow> Inl e
      | Inr (opts', res') \<Rightarrow> Inr (AND (map snd (rev opts')) res'))"
| "OR_loop [] = Inr ([], None)"
| "OR_loop (p # rest) =
     (case check (snd p) of
        Inl e \<Rightarrow> Inl e
      | Inr opt \<Rightarrow>
          (case result_of opt of
             None \<Rightarrow> Inl AttributeError
           | Some r \<Rightarrow>
               if startswith r ''OK'' then
                 (if fst p \<noteq> 0 then
                    (case OR_more_info opt r of
                       Inl e \<Rightarrow> Inl e
                     | Inr r' \<Rightarrow> Inr ((fst p, opt) # rest, Some r'))
                  else Inr ((fst p, opt) # rest, Some r))
               else
                 (case OR_loop rest of
                    Inl e \<Rightarrow> Inl e
                  | Inr (rest', res') \<Rightarrow> Inr ((fst p, opt) # rest', res'))))"
| "AND_loop [] res = Inr ([], res)"
| "AND_loop (p # rest) res =
     (case check (snd p) of
        Inl e \<Rightarrow> Inl e
      | Inr opt \<Rightarrow>
          if fst p = 0 then Inr ((fst p, opt) # rest, result_of opt)
          else
            (case result_of opt of
               None \<Rightarrow> Inl AttributeError
             | Some r \<Rightarrow>
                 if \<not> startswith r ''OK'' then
                   (case AND_describe opt r of
                      Inl e \<Rightarrow> Inl e
                    | Inr r' \<Rightarrow> Inr ((fst p, opt) # rest, Some r'))
                 else
                   (case AND_loop rest res of
                      Inl e \<Rightarrow> Inl e
                    | Inr (rest', res') \<Rightarrow> Inr ((fst p, opt) # rest', res'))))"
  by pat_completeness auto
termination
  by (relation "measure (\<lambda>x. case x of
        Inl c \<Rightarrow> size c
      | Inr (Inl ps) \<Rightarrow> size_list (\<lambda>p. size (snd p)) ps
      | Inr (Inr (ps, res)) \<Rightarrow> size_list (\<lambda>p. size (snd p)) ps)") simp_all

section \<open>Reading the input files\<close>

text \<open>
  A file is the text that Python's text mode delivers (decoded, every line ending a
  single newline character). \<open>readline\<close> gives the next line with its newline and the
  text left; \<open>readlines\<close> gives all the lines, each with its newline (the last one may
  lack it).
\<close>

definition readline :: "string \<Rightarrow> string \<times> string" where
  "readline text =
     (takeWhile (\<lambda>c. c \<noteq> CHR 0x0A) text @ take 1 (dropWhile (\<lambda>c. c \<noteq> CHR 0x0A) text),
      drop 1 (dropWhile (\<lambda>c. c \<noteq> CHR 0x0A) text))"

fun readlines_from :: "string \<Rightarrow> string \<Rightarrow> string list" where
  "readlines_from cur [] = (if cur = [] then [] else [cur])"
| "readlines_from cur (c # cs) =
     (if c = CHR 0x0A then (cur @ [c]) # readlines_from [] cs
      else readlines_from (cur @ [c]) cs)"

definition readlines :: "string \<Rightarrow> string list" where
  "readlines text = readlines_from [] text"

section \<open>The regular expressions\<close>

text \<open>The character class \<open>[a-zA-Z0-9_]\<close>.\<close>

definition is_word :: "char \<Rightarrow> bool" where
  "is_word c =
     ((97 \<le> (of_char c :: nat) \<and> (of_char c :: nat) \<le> 122)
      \<or> (65 \<le> (of_char c :: nat) \<and> (of_char c :: nat) \<le> 90)
      \<or> (48 \<le> (of_char c :: nat) \<and> (of_char c :: nat) \<le> 57)
      \<or> c = CHR ''_'')"

text \<open>
  \<open>re.match\<close> anchors a pattern at the start of the line and accepts any text after the
  match. In the three patterns the character after the starred class is not in the
  class, so the star takes the longest run of class characters and gives none back.
  \<open>arch_pattern\<close> is \<open>CONFIG_[a-zA-Z0-9_]*=y\<close>, \<open>opt_is_on\<close> is
  \<open>CONFIG_[a-zA-Z0-9_]*=[a-zA-Z0-9_"]*\<close> (whose last star may match nothing), and
  \<open>opt_is_off\<close> is \<open># CONFIG_[a-zA-Z0-9_]* is not set\<close>.
\<close>

definition arch_pattern :: "string \<Rightarrow> bool" where
  "arch_pattern line =
     (startswith line ''CONFIG_'' \<and> startswith (dropWhile is_word (drop 7 line)) ''=y'')"

definition opt_is_on :: "string \<Rightarrow> bool" where
  "opt_is_on line =
     (startswith line ''CONFIG_'' \<and> startswith (dropWhile is_word (drop 7 line)) ''='')"

definition opt_is_off :: "string \<Rightarrow> bool" where
  "opt_is_off line =
     (startswith line ''# CONFIG_''
      \<and> startswith (dropWhile is_word (drop 9 line)) '' is not set'')"

section \<open>\<open>detect_arch\<close>\<close>

text \<open>\<open>not arch\<close> for \<open>arch\<close> a string or \<open>None\<close>.\<close>

definition not_str :: "string option \<Rightarrow> bool" where
  "not_str x = (x = None \<or> x = Some [])"

text \<open>
  The loop of \<open>detect_arch\<close> from the value \<open>arch\<close>, with the two statements after it.
  The function returns a pair: the architecture or \<open>None\<close>, and a message.
\<close>

fun detect_arch_loop :: "string list \<Rightarrow> string list \<Rightarrow> string option \<Rightarrow> error + (string option \<times> string)" where
  "detect_arch_loop [] archs arch =
     (if not_str arch then Inr (None, ''failed to detect architecture'')
      else Inr (arch, ''OK''))"
| "detect_arch_loop (line # lines) archs arch =
     (if arch_pattern line then
        (case split1 (CHR ''='') (drop 7 line) of
           [option, rest] \<Rightarrow>
             (if option \<in> set archs then
                (if not_str arch then detect_arch_loop lines archs (Some option)
                 else Inr (None, ''more than one supported architecture is detected''))
              else detect_arch_loop lines archs arch)
         | _ \<Rightarrow> Inl ValueError)
      else detect_arch_loop lines archs arch)"

definition detect_arch :: "string \<Rightarrow> string list \<Rightarrow> error + (string option \<times> string)" where
  "detect_arch text archs = detect_arch_loop (readlines text) archs None"

text \<open>The list \<open>supported_archs\<close> of \<open>main\<close>.\<close>

definition supported_archs :: "string list" where
  "supported_archs = [''X86_64'', ''X86_32'', ''ARM64'', ''ARM'']"

section \<open>\<open>parse_kconfig_file\<close>\<close>

text \<open>
  The last two statements of the loop body: the test for a duplicate and the
  assignment, for an \<open>option\<close> that is a string.
\<close>

definition kconfig_store :: "dict \<Rightarrow> string \<Rightarrow> string \<Rightarrow> string \<Rightarrow> error + dict" where
  \<open>kconfig_store parsed_options line option v =
     (if dict_in option parsed_options then
        Inl (SystemExit (''[!] ERROR: kconfig option "'' @ line @ ''" exists multiple times''))
      else if option \<noteq> [] then Inr (dict_set parsed_options option v)
      else Inr parsed_options)\<close>

text \<open>
  The loop body for one line of the file. When neither pattern matches, \<open>option\<close> is
  \<open>None\<close>, which is in no dictionary and is not stored.
\<close>

definition kconfig_line :: "dict \<Rightarrow> string \<Rightarrow> error + dict" where
  \<open>kconfig_line parsed_options l =
     (let line = strip l in
      if opt_is_on line then
        (case split1 (CHR ''='') line of
           [option, v] \<Rightarrow>
             (if v = ''is not set'' then
                Inl (SystemExit (''[!] ERROR: bad enabled kconfig option "'' @ line @ ''"''))
              else kconfig_store parsed_options line option v)
         | _ \<Rightarrow> Inl ValueError)
      else if opt_is_off line then
        (case split1 (CHR '' '') (drop 2 line) of
           [option, v] \<Rightarrow>
             (if v \<noteq> ''is not set'' then
                Inl (SystemExit (''[!] ERROR: bad disabled kconfig option "'' @ line @ ''"''))
              else kconfig_store parsed_options line option v)
         | _ \<Rightarrow> Inl ValueError)
      else Inr parsed_options)\<close>

fun parse_kconfig_lines :: "dict \<Rightarrow> string list \<Rightarrow> error + dict" where
  "parse_kconfig_lines parsed_options [] = Inr parsed_options"
| "parse_kconfig_lines parsed_options (l # ls) =
     (case kconfig_line parsed_options l of
        Inl e \<Rightarrow> Inl e
      | Inr parsed_options' \<Rightarrow> parse_kconfig_lines parsed_options' ls)"

definition parse_kconfig_file :: "dict \<Rightarrow> string \<Rightarrow> error + dict" where
  "parse_kconfig_file parsed_options text = parse_kconfig_lines parsed_options (readlines text)"

section \<open>\<open>normalize_cmdline_options\<close> and \<open>parse_cmdline_file\<close>\<close>

definition normalize_cmdline_options :: "string \<Rightarrow> string \<Rightarrow> string" where
  "normalize_cmdline_options option v =
     (if option = ''pti'' then v
      else if option = ''debugfs'' then v
      else if v \<in> set [''1'', ''on'', ''On'', ''ON'', ''y'', ''Y'', ''yes'', ''Yes'', ''YES'']
        then ''1''
      else if v \<in> set [''0'', ''off'', ''Off'', ''OFF'', ''n'', ''N'', ''no'', ''No'', ''NO'']
        then ''0''
      else v)"

text \<open>The loop body of \<open>parse_cmdline_file\<close> for one token, and the loop.\<close>

definition cmdline_opt :: "dict \<Rightarrow> string \<Rightarrow> error + dict" where
  "cmdline_opt parsed_options opt =
     (if CHR ''='' \<in> set opt then
        (case split1 (CHR ''='') opt of
           [nm, v] \<Rightarrow> Inr (dict_set parsed_options nm (normalize_cmdline_options nm v))
         | _ \<Rightarrow> Inl ValueError)
      else Inr (dict_set parsed_options opt (normalize_cmdline_options opt [])))"

fun parse_cmdline_opts :: "dict \<Rightarrow> string list \<Rightarrow> error + dict" where
  "parse_cmdline_opts parsed_options [] = Inr parsed_options"
| "parse_cmdline_opts parsed_options (opt # opts) =
     (case cmdline_opt parsed_options opt of
        Inl e \<Rightarrow> Inl e
      | Inr parsed_options' \<Rightarrow> parse_cmdline_opts parsed_options' opts)"

text \<open>\<open>fname\<close> is the name of the file and \<open>text\<close> what it holds.\<close>

definition parse_cmdline_file :: "dict \<Rightarrow> string \<Rightarrow> string \<Rightarrow> error + dict" where
  \<open>parse_cmdline_file parsed_options fname text =
     (let (line, text') = readline text;
          opts = split line;
          (line', text'') = readline text'
      in if line' \<noteq> [] then
           Inl (SystemExit (''[!] ERROR: more than one line in "'' @ fname @ ''"''))
         else parse_cmdline_opts parsed_options opts)\<close>

section \<open>Populating the checklist\<close>

definition SIMPLE_OPTION_TYPES :: "string list" where
  "SIMPLE_OPTION_TYPES = [''kconfig'', ''version'', ''cmdline'']"

text \<open>
  The assignments \<open>opt.state = s\<close> and \<open>opt.ver = v\<close>. \<open>populate_simple_opt_with_data\<close>
  makes the first on a \<open>KconfigCheck\<close> or a \<open>CmdlineCheck\<close> only, and the second on a
  \<open>VersionCheck\<close> only: the other equations are never used.
\<close>

fun set_state :: "opt \<Rightarrow> string option \<Rightarrow> opt" where
  "set_state (Kconfig c) s = Kconfig (c\<lparr>state := s\<rparr>)"
| "set_state (Cmdline c) s = Cmdline (c\<lparr>state := s\<rparr>)"
| "set_state opt s = opt"

fun set_ver :: "opt \<Rightarrow> pyval \<Rightarrow> opt" where
  "set_ver (Version v) d = Version (v\<lparr>ver := d\<rparr>)"
| "set_ver opt d = opt"

text \<open>
  In \<open>populate_simple_opt_with_data\<close>, \<open>data.get\<close> is there for a dictionary; a tuple has
  no method \<open>get\<close>.
\<close>

definition populate_simple_opt_with_data :: "opt \<Rightarrow> pyval \<Rightarrow> string \<Rightarrow> error + opt" where
  \<open>populate_simple_opt_with_data opt d data_type =
     (if type_of opt = ''complex'' then
        (case name_of opt of
           Inl e \<Rightarrow> Inl e
         | Inr n \<Rightarrow> Inl (AssertionError (''unexpected ComplexOptCheck "'' @ n @ ''"'')))
      else if type_of opt \<notin> set SIMPLE_OPTION_TYPES then
        Inl (AssertionError (''invalid opt type "'' @ type_of opt @ ''"''))
      else if data_type \<notin> set SIMPLE_OPTION_TYPES then
        Inl (AssertionError (''invalid data type "'' @ data_type @ ''"''))
      else if data_type \<noteq> type_of opt then Inr opt
      else if data_type \<in> set [''kconfig'', ''cmdline''] then
        (case d of
           Tuple xs \<Rightarrow> Inl AttributeError
         | Dict m \<Rightarrow>
             (case name_of opt of
                Inl e \<Rightarrow> Inl e
              | Inr n \<Rightarrow> Inr (set_state opt (dict_get m n))))
      else if data_type \<noteq> ''version'' then
        Inl (AssertionError (''unexpected data type "'' @ data_type @ ''"''))
      else Inr (set_ver opt d))\<close>

text \<open>
  \<open>populate_opt_with_data\<close>, and \<open>populate_opts\<close> for its loop over the children of a
  \<open>ComplexOptCheck\<close>.
\<close>

fun populate_opt_with_data :: "opt \<Rightarrow> pyval \<Rightarrow> string \<Rightarrow> error + opt"
  and populate_opts :: "opt list \<Rightarrow> pyval \<Rightarrow> string \<Rightarrow> error + opt list"
where
  "populate_opt_with_data (OR opts res) d data_type =
     (case populate_opts opts d data_type of
        Inl e \<Rightarrow> Inl e
      | Inr opts' \<Rightarrow> Inr (OR opts' res))"
| "populate_opt_with_data (AND opts res) d data_type =
     (case populate_opts opts d data_type of
        Inl e \<Rightarrow> Inl e
      | Inr opts' \<Rightarrow> Inr (AND opts' res))"
| \<open>populate_opt_with_data opt d data_type =
     (if type_of opt \<in> set [''kconfig'', ''cmdline''] then
        populate_simple_opt_with_data opt d data_type
      else Inl (AssertionError (''bad type "'' @ type_of opt @ ''" for a simple check'')))\<close>
| "populate_opts [] d data_type = Inr []"
| "populate_opts (opt # opts) d data_type =
     (case (if type_of opt = ''complex'' then populate_opt_with_data opt d data_type
            else populate_simple_opt_with_data opt d data_type) of
        Inl e \<Rightarrow> Inl e
      | Inr opt' \<Rightarrow>
          (case populate_opts opts d data_type of
             Inl e \<Rightarrow> Inl e
           | Inr opts' \<Rightarrow> Inr (opt' # opts')))"

fun populate_with_data :: "opt list \<Rightarrow> pyval \<Rightarrow> string \<Rightarrow> error + opt list" where
  "populate_with_data [] d data_type = Inr []"
| "populate_with_data (opt # checklist) d data_type =
     (case populate_opt_with_data opt d data_type of
        Inl e \<Rightarrow> Inl e
      | Inr opt' \<Rightarrow>
          (case populate_with_data checklist d data_type of
             Inl e \<Rightarrow> Inl e
           | Inr checklist' \<Rightarrow> Inr (opt' # checklist')))"

section \<open>Notions used in the statements\<close>

text \<open>
  A line is an architecture marker when \<open>arch_pattern\<close> matches it and the option name
  that \<open>detect_arch\<close> reads from it, the text between \<open>CONFIG_\<close> and the first \<open>=\<close>, is
  one of \<open>archs\<close>.
\<close>

definition marker_option :: "string \<Rightarrow> string" where
  "marker_option line = takeWhile (\<lambda>c. c \<noteq> CHR ''='') (drop 7 line)"

definition arch_marker :: "string list \<Rightarrow> string \<Rightarrow> bool" where
  "arch_marker archs line = (arch_pattern line \<and> marker_option line \<in> set archs)"

text \<open>
  \<open>kconfig_entry l\<close> is the option name and the value that the line \<open>l\<close> of a kconfig
  file defines, if it defines one. With \<open>l\<close> stripped, they are the two sides of the
  first \<open>=\<close> of a line that \<open>opt_is_on\<close> matches, and the two sides of the first space
  after the leading \<open>#\<close> and space of a line that \<open>opt_is_off\<close> matches. \<open>kconfig_bad l\<close> holds when the line is one of the two
  format errors, and \<open>kconfig_entries\<close> collects the entries of the lines in order.
\<close>

definition kconfig_entry :: "string \<Rightarrow> (string \<times> string) option" where
  "kconfig_entry l =
     (let line = strip l in
      if opt_is_on line then
        Some (takeWhile (\<lambda>c. c \<noteq> CHR ''='') line, tl (dropWhile (\<lambda>c. c \<noteq> CHR ''='') line))
      else if opt_is_off line then
        Some (takeWhile (\<lambda>c. c \<noteq> CHR '' '') (drop 2 line),
              tl (dropWhile (\<lambda>c. c \<noteq> CHR '' '') (drop 2 line)))
      else None)"

definition kconfig_bad :: "string \<Rightarrow> bool" where
  "kconfig_bad l =
     (case kconfig_entry l of
        None \<Rightarrow> False
      | Some (k, v) \<Rightarrow>
          if opt_is_on (strip l) then v = ''is not set'' else v \<noteq> ''is not set'')"

definition kconfig_entries :: "string list \<Rightarrow> dict" where
  "kconfig_entries ls = List.map_filter kconfig_entry ls"

text \<open>
  The name and the value of a token of the command line: the two sides of its first
  \<open>=\<close>, or the token and the empty string when it has no \<open>=\<close>.
\<close>

definition token_name :: "string \<Rightarrow> string" where
  "token_name tok = takeWhile (\<lambda>c. c \<noteq> CHR ''='') tok"

definition token_value :: "string \<Rightarrow> string" where
  "token_value tok =
     (if CHR ''='' \<in> set tok then tl (dropWhile (\<lambda>c. c \<noteq> CHR ''='') tok) else [])"

text \<open>The lines of a file that hold more than their newline.\<close>

definition nonempty_lines :: "string \<Rightarrow> string list" where
  "nonempty_lines text = filter (\<lambda>l. l \<noteq> [CHR 0x0A]) (readlines text)"

text \<open>
  A population pass of the kind \<open>data_type\<close> with the data \<open>d\<close>: the kind is one of the
  three, and the data of the kinds \<open>kconfig\<close> and \<open>cmdline\<close> is a dictionary.
\<close>

definition pass_ok :: "pyval \<Rightarrow> string \<Rightarrow> bool" where
  "pass_ok d data_type =
     (data_type \<in> set SIMPLE_OPTION_TYPES
      \<and> (data_type \<noteq> ''version'' \<longrightarrow> (case d of Dict m \<Rightarrow> True | Tuple xs \<Rightarrow> False)))"

text \<open>
  What a population pass with the data \<open>d\<close> of the kind \<open>t\<close> makes of a check: every
  \<open>KconfigCheck\<close> or \<open>CmdlineCheck\<close> of the kind \<open>t\<close> in it has its \<open>state\<close> bound to
  \<open>d.get(name, None)\<close>, every \<open>VersionCheck\<close> has its \<open>ver\<close> bound to \<open>d\<close> when \<open>t\<close> is
  \<open>version\<close>, and nothing else changes.
\<close>

fun populated :: "pyval \<Rightarrow> string \<Rightarrow> opt \<Rightarrow> opt" where
  "populated d t (Kconfig c) =
     (case d of
        Dict m \<Rightarrow> if t = ''kconfig'' then Kconfig (c\<lparr>state := dict_get m (name c)\<rparr>) else Kconfig c
      | Tuple xs \<Rightarrow> Kconfig c)"
| "populated d t (Cmdline c) =
     (case d of
        Dict m \<Rightarrow> if t = ''cmdline'' then Cmdline (c\<lparr>state := dict_get m (name c)\<rparr>) else Cmdline c
      | Tuple xs \<Rightarrow> Cmdline c)"
| "populated d t (Version v) = (if t = ''version'' then Version (v\<lparr>ver := d\<rparr>) else Version v)"
| "populated d t (OR opts res) = OR (map (populated d t) opts) res"
| "populated d t (AND opts res) = AND (map (populated d t) opts) res"

text \<open>
  \<open>forget t\<close> clears the actual-state field of the simple checks of the kind \<open>t\<close>: two
  checks with the same image differ at most there. \<open>has_version\<close> holds for a checklist
  with a \<open>VersionCheck\<close> at its top level.
\<close>

fun forget :: "string \<Rightarrow> opt \<Rightarrow> opt" where
  "forget t (Kconfig c) = (if t = ''kconfig'' then Kconfig (c\<lparr>state := None\<rparr>) else Kconfig c)"
| "forget t (Cmdline c) = (if t = ''cmdline'' then Cmdline (c\<lparr>state := None\<rparr>) else Cmdline c)"
| "forget t (Version v) = (if t = ''version'' then Version (v\<lparr>ver := Tuple []\<rparr>) else Version v)"
| "forget t (OR opts res) = OR (map (forget t) opts) res"
| "forget t (AND opts res) = AND (map (forget t) opts) res"

definition has_version :: "opt list \<Rightarrow> bool" where
  "has_version checklist = (\<exists>opt \<in> set checklist. type_of opt = ''version'')"

text \<open>
  A check has passed when its result starts with \<open>OK\<close>, and failed when it has a
  result that does not. \<open>check_fails opt opt'\<close> says that evaluating \<open>opt\<close> returns, with
  \<open>opt'\<close> for the evaluated check, and that it failed; \<open>check_passes\<close> likewise.
\<close>

definition passed :: "opt \<Rightarrow> bool" where
  "passed opt = (case result_of opt of None \<Rightarrow> False | Some r \<Rightarrow> startswith r ''OK'')"

definition failed :: "opt \<Rightarrow> bool" where
  "failed opt = (case result_of opt of None \<Rightarrow> False | Some r \<Rightarrow> \<not> startswith r ''OK'')"

definition check_fails :: "opt \<Rightarrow> opt \<Rightarrow> bool" where
  "check_fails opt opt' = (check opt = Inr opt' \<and> failed opt')"

definition check_passes :: "opt \<Rightarrow> opt \<Rightarrow> bool" where
  "check_passes opt opt' = (check opt = Inr opt' \<and> passed opt')"

section \<open>The decision procedure of a simple check\<close>

text \<open>
  Claim C1. \<open>OptCheck.check\<close> is total: it sets \<open>result\<close> to a string \<open>r\<close> and changes
  nothing else. With no expected value, \<open>r\<close> is a pass exactly when the state is not
  absent (\<open>OK: is present\<close>), and \<open>FAIL: not present\<close> otherwise. With an expected value
  \<open>E\<close>: \<open>r\<close> is \<open>OK\<close> when the state equals \<open>E\<close>; when the state is absent, \<open>r\<close> is a
  pass exactly when \<open>E\<close> is \<open>is not set\<close> (\<open>OK: not found\<close>), and \<open>FAIL: not found\<close>
  otherwise; in the remaining cases \<open>r\<close> is \<open>FAIL: "s"\<close> for the observed value \<open>s\<close>.
\<close>

theorem OptCheck_check_decision:
  \<open>\<exists>r. OptCheck_check self = self\<lparr>result := Some r\<rparr>
     \<and> (expected self = None \<longrightarrow>
          (startswith r ''OK'' \<longleftrightarrow> state self \<noteq> None)
          \<and> (state self \<noteq> None \<longrightarrow> r = ''OK: is present'')
          \<and> (state self = None \<longrightarrow> r = ''FAIL: not present''))
     \<and> (\<forall>E. expected self = Some E \<longrightarrow>
          (state self = Some E \<longrightarrow> r = ''OK'')
          \<and> (state self = None \<longrightarrow>
               (startswith r ''OK'' \<longleftrightarrow> E = ''is not set'')
               \<and> (E = ''is not set'' \<longrightarrow> r = ''OK: not found'')
               \<and> (E \<noteq> ''is not set'' \<longrightarrow> r = ''FAIL: not found''))
          \<and> (\<forall>s. state self = Some s \<and> s \<noteq> E \<longrightarrow> r = ''FAIL: "'' @ s @ ''"''))\<close>
  by (cases "expected self"; cases "state self")
     (auto simp: OptCheck_check_def startswith_def)

theorem OptCheck_check_decision_witness:
  \<open>OptCheck_check \<lparr>name = ''CONFIG_BUG'', expected = Some ''y'', decision = ''defconfig'',
       reason = ''self_protection'', state = Some ''m'', result = None\<rparr>
   = \<lparr>name = ''CONFIG_BUG'', expected = Some ''y'', decision = ''defconfig'',
       reason = ''self_protection'', state = Some ''m'', result = Some ''FAIL: "m"''\<rparr>\<close>
  using OptCheck_check_decision [of \<open>\<lparr>name = ''CONFIG_BUG'', expected = Some ''y'',
       decision = ''defconfig'', reason = ''self_protection'', state = Some ''m'',
       result = None\<rparr>\<close>]
  by auto

section \<open>The version check\<close>

text \<open>
  Claim C4. For a \<open>VersionCheck\<close> whose \<open>ver\<close> is populated with the pair
  \<open>(actual_major, actual_minor)\<close> and whose required pair is
  \<open>(required_major, required_minor)\<close>, \<open>check\<close> returns, sets the result to a string and
  changes nothing else; the result is a pass exactly when the actual pair is greater than
  or equal to the required pair in the lexicographic order, a failure otherwise, and in
  both cases its text ends with the required bound \<open>major.minor\<close>.
\<close>

theorem VersionCheck_check_lexicographic:
  assumes "ver self = Tuple [actual_major, actual_minor]"
    and "ver_expected self = (required_major, required_minor)"
  shows "\<exists>r. VersionCheck_check self = Inr (self\<lparr>ver_result := Some r\<rparr>)
     \<and> (startswith r ''OK'' \<longleftrightarrow>
          actual_major > required_major
          \<or> (actual_major = required_major \<and> actual_minor \<ge> required_minor))
     \<and> (startswith r ''FAIL'' \<longleftrightarrow>
          \<not> (actual_major > required_major
             \<or> (actual_major = required_major \<and> actual_minor \<ge> required_minor)))
     \<and> r = (if actual_major > required_major
                \<or> (actual_major = required_major \<and> actual_minor \<ge> required_minor)
             then ''OK: version >= '' else ''FAIL: version < '')
            @ str_int required_major @ ''.'' @ str_int required_minor"
  using assms
  by (auto simp: VersionCheck_check_def getitem_def version_ok_def version_fail_def
      startswith_def)

theorem VersionCheck_check_lexicographic_witness:
  "VersionCheck_check \<lparr>ver_expected = (5, 9), ver = Tuple [5, 10], ver_result = None\<rparr>
     = Inr \<lparr>ver_expected = (5, 9), ver = Tuple [5, 10],
         ver_result = Some ''OK: version >= 5.9''\<rparr>"
proof -
  let ?v = "\<lparr>ver_expected = (5, 9), ver = Tuple [5, 10], ver_result = None\<rparr>"
  have s5: "str_int 5 = ''5''" and s9: "str_int 9 = ''9''"
    by (simp_all add: str_int_def str_nat.simps)
  from VersionCheck_check_lexicographic [of ?v 5 10 5 9]
  obtain r where r: "VersionCheck_check ?v = Inr (?v\<lparr>ver_result := Some r\<rparr>)"
    and msg: "r = ''OK: version >= '' @ str_int 5 @ ''.'' @ str_int 9"
    by auto
  from msg have "r = ''OK: version >= 5.9''"
    by (simp add: s5 s9)
  with r show ?thesis by simp
qed

section \<open>Normalization of the command line values\<close>

text \<open>
  Claim C7. For the parameter names \<open>pti\<close> and \<open>debugfs\<close>,
  \<open>normalize_cmdline_options\<close> returns the value unchanged, whatever its spelling. For
  every other name, each spelling of the truthy set (\<open>on\<close>, \<open>ON\<close>, \<open>y\<close>, \<open>yes\<close> among
  them) gives \<open>1\<close>, each spelling of the falsy set (\<open>off\<close>, \<open>N\<close>, \<open>no\<close> among them) gives
  \<open>0\<close>, and any other value is returned unchanged.
\<close>

theorem normalize_cmdline_options_spec:
  "(option \<in> {''pti'', ''debugfs''} \<longrightarrow> normalize_cmdline_options option v = v)
   \<and> (option \<notin> {''pti'', ''debugfs''} \<longrightarrow>
        (v \<in> {''1'', ''on'', ''On'', ''ON'', ''y'', ''Y'', ''yes'', ''Yes'', ''YES''}
           \<longrightarrow> normalize_cmdline_options option v = ''1'')
        \<and> (v \<in> {''0'', ''off'', ''Off'', ''OFF'', ''n'', ''N'', ''no'', ''No'', ''NO''}
           \<longrightarrow> normalize_cmdline_options option v = ''0'')
        \<and> (v \<notin> {''1'', ''on'', ''On'', ''ON'', ''y'', ''Y'', ''yes'', ''Yes'', ''YES'',
                 ''0'', ''off'', ''Off'', ''OFF'', ''n'', ''N'', ''no'', ''No'', ''NO''}
           \<longrightarrow> normalize_cmdline_options option v = v))"
  by (simp add: normalize_cmdline_options_def)

theorem normalize_cmdline_options_spec_witness:
  "normalize_cmdline_options ''pti'' ''on'' = ''on''
   \<and> normalize_cmdline_options ''rodata'' ''on'' = ''1''
   \<and> normalize_cmdline_options ''rodata'' ''ON'' = ''1''
   \<and> normalize_cmdline_options ''rodata'' ''y'' = ''1''
   \<and> normalize_cmdline_options ''rodata'' ''yes'' = ''1''
   \<and> normalize_cmdline_options ''rodata'' ''off'' = ''0''
   \<and> normalize_cmdline_options ''rodata'' ''N'' = ''0''
   \<and> normalize_cmdline_options ''rodata'' ''no'' = ''0''
   \<and> normalize_cmdline_options ''debugfs'' ''off'' = ''off''
   \<and> normalize_cmdline_options ''rodata'' ''full'' = ''full''"
  using normalize_cmdline_options_spec [of "''pti''" "''on''"]
    normalize_cmdline_options_spec [of "''rodata''" "''on''"]
    normalize_cmdline_options_spec [of "''rodata''" "''ON''"]
    normalize_cmdline_options_spec [of "''rodata''" "''y''"]
    normalize_cmdline_options_spec [of "''rodata''" "''yes''"]
    normalize_cmdline_options_spec [of "''rodata''" "''off''"]
    normalize_cmdline_options_spec [of "''rodata''" "''N''"]
    normalize_cmdline_options_spec [of "''rodata''" "''no''"]
    normalize_cmdline_options_spec [of "''debugfs''" "''off''"]
    normalize_cmdline_options_spec [of "''rodata''" "''full''"]
  by simp

section \<open>Architecture detection\<close>

text \<open>The lines that the three patterns match, written out.\<close>

lemma startswith_append: "startswith s p \<longleftrightarrow> (\<exists>t. s = p @ t)"
  unfolding startswith_def
  by (metis append_eq_conv_conj append_take_drop_id)

lemma is_word_eq [simp]: "\<not> is_word (CHR ''='')" "\<not> is_word (CHR '' '')"
  by (simp_all add: is_word_def)

lemma dropWhile_word_run:
  assumes "list_all is_word w" and "\<not> is_word c"
  shows "dropWhile is_word (w @ c # t) = c # t" "takeWhile is_word (w @ c # t) = w"
  using assms by (induction w) simp_all

lemma takeWhile_noteq_word_run:
  assumes "list_all is_word w"
  shows "takeWhile (\<lambda>c. c \<noteq> CHR ''='') (w @ CHR ''='' # t) = w"
    and "dropWhile (\<lambda>c. c \<noteq> CHR ''='') (w @ CHR ''='' # t) = CHR ''='' # t"
  using assms by (induction w) auto

lemma word_run_shape:
  assumes "startswith (dropWhile is_word s) (c # p)" and "\<not> is_word c"
  shows "\<exists>w t. s = w @ c # p @ t \<and> list_all is_word w"
proof -
  from assms(1) obtain t where t: "dropWhile is_word s = c # p @ t"
    by (auto simp: startswith_append)
  have "s = takeWhile is_word s @ dropWhile is_word s" by simp
  with t have "s = takeWhile is_word s @ c # p @ t" by simp
  moreover have "list_all is_word (takeWhile is_word s)"
    by (simp add: list_all_iff) (meson set_takeWhileD)
  ultimately show ?thesis by blast
qed

lemma arch_pattern_iff:
  "arch_pattern line \<longleftrightarrow>
     (\<exists>w t. line = ''CONFIG_'' @ w @ ''=y'' @ t \<and> list_all is_word w)"
proof
  assume "arch_pattern line"
  then obtain d where d: "line = ''CONFIG_'' @ d"
    and s: "startswith (dropWhile is_word d) ''=y''"
    by (auto simp: arch_pattern_def startswith_append)
  from word_run_shape [OF s] obtain w t where "d = w @ ''=y'' @ t" "list_all is_word w"
    by auto
  with d show "\<exists>w t. line = ''CONFIG_'' @ w @ ''=y'' @ t \<and> list_all is_word w"
    by auto
next
  assume "\<exists>w t. line = ''CONFIG_'' @ w @ ''=y'' @ t \<and> list_all is_word w"
  then obtain w t where l: "line = ''CONFIG_'' @ w @ ''=y'' @ t" and w: "list_all is_word w"
    by blast
  from w have "dropWhile is_word (w @ CHR ''='' # CHR ''y'' # t) = CHR ''='' # CHR ''y'' # t"
    by (rule dropWhile_word_run) simp
  with l show "arch_pattern line"
    by (simp add: arch_pattern_def startswith_def)
qed

lemma arch_marker_iff:
  "arch_marker archs line \<longleftrightarrow>
     (\<exists>a t. line = ''CONFIG_'' @ a @ ''=y'' @ t \<and> list_all is_word a \<and> a \<in> set archs)"
proof
  assume "arch_marker archs line"
  then obtain w t where l: "line = ''CONFIG_'' @ w @ ''=y'' @ t" and w: "list_all is_word w"
    and m: "marker_option line \<in> set archs"
    by (auto simp: arch_marker_def arch_pattern_iff)
  from l w have "marker_option line = w"
    using takeWhile_noteq_word_run(1) [OF w, of "CHR ''y'' # t"]
    by (simp add: marker_option_def)
  with l w m show "\<exists>a t. line = ''CONFIG_'' @ a @ ''=y'' @ t \<and> list_all is_word a \<and> a \<in> set archs"
    by auto
next
  assume "\<exists>a t. line = ''CONFIG_'' @ a @ ''=y'' @ t \<and> list_all is_word a \<and> a \<in> set archs"
  then obtain a t where l: "line = ''CONFIG_'' @ a @ ''=y'' @ t" and w: "list_all is_word a"
    and a: "a \<in> set archs"
    by blast
  from l w have "arch_pattern line" by (auto simp: arch_pattern_iff)
  moreover from l w have "marker_option line = a"
    using takeWhile_noteq_word_run(1) [OF w, of "CHR ''y'' # t"]
    by (simp add: marker_option_def)
  ultimately show "arch_marker archs line" using a by (simp add: arch_marker_def)
qed

lemma arch_pattern_split1:
  assumes "arch_pattern line"
  shows "\<exists>rest. split1 (CHR ''='') (drop 7 line) = [marker_option line, rest]"
proof -
  from assms obtain w t where l: "line = ''CONFIG_'' @ w @ ''=y'' @ t"
    by (auto simp: arch_pattern_iff)
  then have "CHR ''='' \<in> set (drop 7 line)" by simp
  then show ?thesis by (simp add: split1_def marker_option_def)
qed

lemma detect_arch_loop_found:
  assumes "a \<noteq> []"
  shows "detect_arch_loop lines archs (Some a) =
     Inr (if filter (arch_marker archs) lines = [] then (Some a, ''OK'')
          else (None, ''more than one supported architecture is detected''))"
proof (induction lines)
  case Nil
  with assms show ?case by (simp add: not_str_def)
next
  case (Cons line lines)
  show ?case
  proof (cases "arch_pattern line")
    case True
    from arch_pattern_split1 [OF True] obtain rest
      where "split1 (CHR ''='') (drop 7 line) = [marker_option line, rest]" ..
    with True Cons assms show ?thesis
      by (cases "marker_option line \<in> set archs")
         (simp_all add: arch_marker_def [of archs line] not_str_def)
  next
    case False
    with Cons show ?thesis by (simp add: arch_marker_def [of archs line])
  qed
qed

lemma detect_arch_loop_none:
  assumes "[] \<notin> set archs"
  shows "detect_arch_loop lines archs None =
     Inr (case filter (arch_marker archs) lines of
            [] \<Rightarrow> (None, ''failed to detect architecture'')
          | [line] \<Rightarrow> (Some (marker_option line), ''OK'')
          | _ \<Rightarrow> (None, ''more than one supported architecture is detected''))"
proof (induction lines)
  case Nil
  show ?case by (simp add: not_str_def)
next
  case (Cons line lines)
  show ?case
  proof (cases "arch_pattern line")
    case True
    from arch_pattern_split1 [OF True] obtain rest
      where sp: "split1 (CHR ''='') (drop 7 line) = [marker_option line, rest]" ..
    show ?thesis
    proof (cases "marker_option line \<in> set archs")
      case True
      with assms have "marker_option line \<noteq> []" by auto
      from detect_arch_loop_found [OF this, of lines archs] True \<open>arch_pattern line\<close> sp
      show ?thesis
        by (simp add: arch_marker_def [of archs line] not_str_def split: list.splits)
    next
      case False
      with True sp Cons show ?thesis by (simp add: arch_marker_def [of archs line])
    qed
  next
    case False
    with Cons show ?thesis by (simp add: arch_marker_def [of archs line])
  qed
qed

text \<open>
  Claim C8. For a set of known architectures without the empty name (as the fixed set of
  \<open>main\<close> is), \<open>detect_arch\<close> returns an architecture exactly when exactly one line of
  the file is an architecture marker; it then returns the architecture of that line,
  which is one of the known ones. With no marker it returns no architecture and the
  message \<open>failed to detect architecture\<close>; with two or more it returns no architecture
  and the message \<open>more than one supported architecture is detected\<close>.
\<close>

theorem detect_arch_exactly_one:
  assumes "[] \<notin> set archs"
  shows "((\<exists>a msg. detect_arch text archs = Inr (Some a, msg))
            \<longleftrightarrow> length (filter (arch_marker archs) (readlines text)) = 1)
     \<and> (\<forall>line. filter (arch_marker archs) (readlines text) = [line] \<longrightarrow>
            detect_arch text archs = Inr (Some (marker_option line), ''OK'')
            \<and> marker_option line \<in> set archs)
     \<and> (length (filter (arch_marker archs) (readlines text)) = 0 \<longrightarrow>
            detect_arch text archs = Inr (None, ''failed to detect architecture''))
     \<and> (length (filter (arch_marker archs) (readlines text)) \<ge> 2 \<longrightarrow>
            detect_arch text archs
              = Inr (None, ''more than one supported architecture is detected''))"
proof -
  let ?ms = "filter (arch_marker archs) (readlines text)"
  have d: "detect_arch text archs =
     Inr (case ?ms of
            [] \<Rightarrow> (None, ''failed to detect architecture'')
          | [line] \<Rightarrow> (Some (marker_option line), ''OK'')
          | _ \<Rightarrow> (None, ''more than one supported architecture is detected''))"
    unfolding detect_arch_def by (rule detect_arch_loop_none [OF assms])
  have m: "marker_option line \<in> set archs" if "?ms = [line]" for line
  proof -
    from that have "line \<in> set ?ms" by simp
    then show ?thesis by (simp add: arch_marker_def)
  qed
  show ?thesis
  proof (cases ?ms)
    case Nil
    with d show ?thesis by simp
  next
    case (Cons l ls)
    with d m show ?thesis by (cases ls) auto
  qed
qed

theorem detect_arch_exactly_one_witness:
  "[] \<notin> set supported_archs
   \<and> detect_arch ''CONFIG_BUG=y\<newline>CONFIG_X86_64=y\<newline>CONFIG_ARM=m\<newline>'' supported_archs
       = Inr (Some ''X86_64'', ''OK'')"
proof -
  let ?text = "''CONFIG_BUG=y\<newline>CONFIG_X86_64=y\<newline>CONFIG_ARM=m\<newline>''"
  have a: "[] \<notin> set supported_archs"
    by (simp add: supported_archs_def)
  have f: "filter (arch_marker supported_archs) (readlines ?text) = [''CONFIG_X86_64=y\<newline>'']"
    by code_simp
  have m: "marker_option ''CONFIG_X86_64=y\<newline>'' = ''X86_64''"
    by code_simp
  from detect_arch_exactly_one [OF a, of ?text] f m a show ?thesis
    by simp
qed

section \<open>The kconfig parser\<close>

lemma sep_after_word_run:
  assumes "list_all is_word u" and "\<not> is_word c"
  shows "takeWhile (\<lambda>x. x \<noteq> c) (u @ c # t) = u"
    and "dropWhile (\<lambda>x. x \<noteq> c) (u @ c # t) = c # t"
  using assms by (induction u) auto

lemma CONFIG_word: "list_all is_word w \<Longrightarrow> list_all is_word (''CONFIG_'' @ w)"
  by (simp add: is_word_def)

lemma opt_is_on_iff:
  "opt_is_on line \<longleftrightarrow>
     (\<exists>w t. line = ''CONFIG_'' @ w @ ''='' @ t \<and> list_all is_word w)"
proof
  assume "opt_is_on line"
  then obtain d where d: "line = ''CONFIG_'' @ d"
    and s: "startswith (dropWhile is_word d) ''=''"
    by (auto simp: opt_is_on_def startswith_append)
  from word_run_shape [OF s] obtain w t where "d = w @ ''='' @ t" "list_all is_word w"
    by auto
  with d show "\<exists>w t. line = ''CONFIG_'' @ w @ ''='' @ t \<and> list_all is_word w"
    by auto
next
  assume "\<exists>w t. line = ''CONFIG_'' @ w @ ''='' @ t \<and> list_all is_word w"
  then obtain w t where l: "line = ''CONFIG_'' @ w @ ''='' @ t" and w: "list_all is_word w"
    by blast
  from w have "dropWhile is_word (w @ CHR ''='' # t) = CHR ''='' # t"
    by (rule dropWhile_word_run) simp
  with l show "opt_is_on line"
    by (simp add: opt_is_on_def startswith_def)
qed

lemma opt_is_off_iff:
  "opt_is_off line \<longleftrightarrow>
     (\<exists>w t. line = ''# CONFIG_'' @ w @ '' is not set'' @ t \<and> list_all is_word w)"
proof
  assume "opt_is_off line"
  then obtain d where d: "line = ''# CONFIG_'' @ d"
    and s: "startswith (dropWhile is_word d) '' is not set''"
    by (auto simp: opt_is_off_def startswith_append)
  from word_run_shape [OF s] obtain w t where "d = w @ '' is not set'' @ t" "list_all is_word w"
    by auto
  with d show "\<exists>w t. line = ''# CONFIG_'' @ w @ '' is not set'' @ t \<and> list_all is_word w"
    by auto
next
  assume "\<exists>w t. line = ''# CONFIG_'' @ w @ '' is not set'' @ t \<and> list_all is_word w"
  then obtain w t where l: "line = ''# CONFIG_'' @ w @ '' is not set'' @ t"
    and w: "list_all is_word w"
    by blast
  from w have "dropWhile is_word (w @ CHR '' '' # ''is not set'' @ t) = CHR '' '' # ''is not set'' @ t"
    by (rule dropWhile_word_run) simp
  with l show "opt_is_off line"
    by (simp add: opt_is_off_def startswith_def)
qed

lemma opt_on_not_off: "opt_is_on line \<Longrightarrow> \<not> opt_is_off line"
  by (auto simp: opt_is_on_def opt_is_off_def startswith_append)

lemma kconfig_entry_on:
  assumes "list_all is_word w" and "strip l = ''CONFIG_'' @ w @ ''='' @ v"
  shows "kconfig_entry l = Some (''CONFIG_'' @ w, v)" and "opt_is_on (strip l)"
proof -
  from assms show on: "opt_is_on (strip l)" by (auto simp: opt_is_on_iff)
  from assms(1) have u: "list_all is_word (''CONFIG_'' @ w)" by (rule CONFIG_word)
  have "strip l = (''CONFIG_'' @ w) @ CHR ''='' # v" using assms(2) by simp
  with sep_after_word_run [OF u, of "CHR ''=''" v] on
  show "kconfig_entry l = Some (''CONFIG_'' @ w, v)"
    by (simp add: kconfig_entry_def)
qed

lemma kconfig_entry_off:
  assumes "list_all is_word w" and "strip l = ''# CONFIG_'' @ w @ '' is not set'' @ t"
  shows "kconfig_entry l = Some (''CONFIG_'' @ w, ''is not set'' @ t)"
    and "opt_is_off (strip l)" and "\<not> opt_is_on (strip l)"
proof -
  from assms show off: "opt_is_off (strip l)" by (auto simp: opt_is_off_iff)
  then show on: "\<not> opt_is_on (strip l)" using opt_on_not_off by blast
  from assms(1) have u: "list_all is_word (''CONFIG_'' @ w)" by (rule CONFIG_word)
  have "drop 2 (strip l) = (''CONFIG_'' @ w) @ CHR '' '' # ''is not set'' @ t"
    using assms(2) by simp
  with sep_after_word_run [OF u, of "CHR '' ''" "''is not set'' @ t"] on off
  show "kconfig_entry l = Some (''CONFIG_'' @ w, ''is not set'' @ t)"
    by (simp add: kconfig_entry_def)
qed

lemma kconfig_entry_None: "kconfig_entry l = None \<longleftrightarrow> \<not> opt_is_on (strip l) \<and> \<not> opt_is_off (strip l)"
  by (simp add: kconfig_entry_def Let_def)

lemma dict_set_append: "\<not> dict_in k d \<Longrightarrow> dict_set d k v = d @ [(k, v)]"
  by (induction d) (auto simp: dict_in_def split: if_splits)

lemma dict_in_append: "dict_in k' (d @ [(k, v)]) \<longleftrightarrow> dict_in k' d \<or> k' = k"
  by (auto simp: dict_in_def split: if_splits)

lemma kconfig_line_ignored:
  assumes "kconfig_entry l = None"
  shows "kconfig_line parsed l = Inr parsed"
  using assms by (simp add: kconfig_entry_None kconfig_line_def)

lemma kconfig_line_Some:
  assumes "kconfig_entry l = Some (k, v)"
  shows "kconfig_line parsed l =
     (if kconfig_bad l then
        Inl (SystemExit ((if opt_is_on (strip l) then ''[!] ERROR: bad enabled kconfig option \"''
                          else ''[!] ERROR: bad disabled kconfig option \"'') @ strip l @ ''\"''))
      else if dict_in k parsed then
        Inl (SystemExit (''[!] ERROR: kconfig option \"'' @ strip l @ ''\" exists multiple times''))
      else Inr (parsed @ [(k, v)]))"
proof (cases "opt_is_on (strip l)")
  case True
  then obtain w t where l: "strip l = ''CONFIG_'' @ w @ ''='' @ t" and w: "list_all is_word w"
    by (auto simp: opt_is_on_iff)
  from kconfig_entry_on(1) [OF w l] assms have kv: "k = ''CONFIG_'' @ w" "v = t" by simp_all
  from w have u: "list_all is_word (''CONFIG_'' @ w)" by (rule CONFIG_word)
  have sh: "strip l = (''CONFIG_'' @ w) @ CHR ''='' # t" using l by simp
  have "CHR ''='' \<in> set (strip l)" using l by simp
  moreover have "takeWhile (\<lambda>x. x \<noteq> CHR ''='') (strip l) = k"
    and "dropWhile (\<lambda>x. x \<noteq> CHR ''='') (strip l) = CHR ''='' # v"
    unfolding sh kv by (rule sep_after_word_run [OF u is_word_eq(1)])+
  ultimately have sp: "split1 (CHR ''='') (strip l) = [k, v]"
    by (simp add: split1_def)
  from True assms have bad: "kconfig_bad l \<longleftrightarrow> v = ''is not set''"
    by (simp add: kconfig_bad_def)
  have "k \<noteq> []" using kv by simp
  with True sp bad show ?thesis
    by (simp add: kconfig_line_def kconfig_store_def dict_set_append)
next
  case False
  with assms have off: "opt_is_off (strip l)"
    by (auto simp: kconfig_entry_def Let_def split: if_splits)
  then obtain w t where l: "strip l = ''# CONFIG_'' @ w @ '' is not set'' @ t"
    and w: "list_all is_word w"
    by (auto simp: opt_is_off_iff)
  from kconfig_entry_off(1) [OF w l] assms
  have kv: "k = ''CONFIG_'' @ w" "v = ''is not set'' @ t" by simp_all
  from w have u: "list_all is_word (''CONFIG_'' @ w)" by (rule CONFIG_word)
  have sh: "drop 2 (strip l) = (''CONFIG_'' @ w) @ CHR '' '' # ''is not set'' @ t"
    using l by simp
  have "CHR '' '' \<in> set (drop 2 (strip l))" using l by simp
  moreover have "takeWhile (\<lambda>x. x \<noteq> CHR '' '') (drop 2 (strip l)) = k"
    and "dropWhile (\<lambda>x. x \<noteq> CHR '' '') (drop 2 (strip l)) = CHR '' '' # v"
    unfolding sh kv by (rule sep_after_word_run [OF u is_word_eq(2)])+
  ultimately have sp: "split1 (CHR '' '') (drop 2 (strip l)) = [k, v]"
    by (simp add: split1_def)
  from False assms have bad: "kconfig_bad l \<longleftrightarrow> v \<noteq> ''is not set''"
    by (simp add: kconfig_bad_def)
  have "k \<noteq> []" using kv by simp
  with False off sp bad show ?thesis
    by (simp add: kconfig_line_def kconfig_store_def dict_set_append)
qed

lemma kconfig_entries_Cons:
  "kconfig_entries (l # ls) =
     (case kconfig_entry l of None \<Rightarrow> kconfig_entries ls | Some e \<Rightarrow> e # kconfig_entries ls)"
  by (simp add: kconfig_entries_def split: option.split)

lemma parse_kconfig_lines_iff:
  "parse_kconfig_lines parsed ls = Inr d \<longleftrightarrow>
     (\<forall>l \<in> set ls. \<not> kconfig_bad l)
     \<and> distinct (map fst (kconfig_entries ls))
     \<and> (\<forall>k \<in> set (map fst (kconfig_entries ls)). \<not> dict_in k parsed)
     \<and> d = parsed @ kconfig_entries ls"
proof (induction ls arbitrary: parsed)
  case Nil
  show ?case by (auto simp: kconfig_entries_def)
next
  case (Cons l ls)
  show ?case
  proof (cases "kconfig_entry l")
    case None
    then have "\<not> kconfig_bad l" by (simp add: kconfig_bad_def)
    with None Cons [of parsed] show ?thesis
      by (simp add: kconfig_line_ignored kconfig_entries_Cons)
  next
    case (Some e)
    obtain k v where e: "e = (k, v)" by (cases e)
    note line = kconfig_line_Some [OF Some [unfolded e], of parsed]
    show ?thesis
    proof (cases "kconfig_bad l \<or> dict_in k parsed")
      case True
      with line Some e show ?thesis
        by (auto simp: kconfig_entries_Cons)
    next
      case False
      with line Some e Cons [of "parsed @ [(k, v)]"] show ?thesis
        by (auto simp: kconfig_entries_Cons dict_in_append)
    qed
  qed
qed


lemma kconfig_entries_append:
  "kconfig_entries (xs @ ys) = kconfig_entries xs @ kconfig_entries ys"
  by (simp add: kconfig_entries_def map_filter_def)

lemma set_kconfig_entries:
  "set (kconfig_entries ls) = {e. \<exists>l \<in> set ls. kconfig_entry l = Some e}"
  by (induction ls) (auto simp: kconfig_entries_Cons kconfig_entries_def split: option.splits)

lemma duplicate_not_distinct:
  assumes "i < j" and "j < length ls"
    and "kconfig_entry (ls ! i) = Some (k, v)" and "kconfig_entry (ls ! j) = Some (k, v')"
  shows "\<not> distinct (map fst (kconfig_entries ls))"
proof -
  from assms(2) have ls: "ls = take j ls @ ls ! j # drop (Suc j) ls"
    by (simp add: id_take_nth_drop)
  from assms(1,2) have "ls ! i \<in> set (take j ls)"
    by (metis in_set_conv_nth length_take min.absorb2 less_imp_le nth_take)
  with assms(3) have "(k, v) \<in> set (kconfig_entries (take j ls))"
    by (auto simp: set_kconfig_entries)
  then have a: "k \<in> set (map fst (kconfig_entries (take j ls)))" by force
  from assms(4) have b: "map fst (kconfig_entries (ls ! j # drop (Suc j) ls))
      = k # map fst (kconfig_entries (drop (Suc j) ls))"
    by (simp add: kconfig_entries_Cons)
  have "map fst (kconfig_entries ls)
      = map fst (kconfig_entries (take j ls)) @ k # map fst (kconfig_entries (drop (Suc j) ls))"
    by (subst ls) (simp only: kconfig_entries_append map_append b)
  with a show ?thesis by auto
qed

lemma not_Inr_is_Inl: "(\<forall>d. x \<noteq> Inr d) \<Longrightarrow> \<exists>e. x = Inl e"
  by (cases x) auto

text \<open>
  Claim C5, as the code has it. A line that reads \<open>CONFIG_w=v\<close> once stripped defines
  the entry \<open>(CONFIG_w, v)\<close>. A line that reads \<open># CONFIG_w is not set\<close> followed by
  \<open>t\<close> defines the entry \<open>(CONFIG_w, is not set t)\<close>: its value is the string
  \<open>is not set\<close>, a value that is present, and not the absent state. A line that matches
  neither pattern defines nothing and leaves the dictionary as it is. When the parser
  returns a dictionary, it is the given one followed by the entries of the lines in
  order, every entry is found under its name, the value of an enabled line is not
  \<open>is not set\<close> and the value of a disabled line is \<open>is not set\<close>. An enabled line with
  the value \<open>is not set\<close> makes the parser fail, and so do two lines that define the
  same option name.
\<close>

theorem parse_kconfig_file_entries:
  "(\<forall>l w v. list_all is_word w \<and> strip l = ''CONFIG_'' @ w @ ''='' @ v \<longrightarrow>
       kconfig_entry l = Some (''CONFIG_'' @ w, v))
   \<and> (\<forall>l w t. list_all is_word w \<and> strip l = ''# CONFIG_'' @ w @ '' is not set'' @ t \<longrightarrow>
       kconfig_entry l = Some (''CONFIG_'' @ w, ''is not set'' @ t))
   \<and> (\<forall>l. \<not> opt_is_on (strip l) \<and> \<not> opt_is_off (strip l) \<longrightarrow>
       kconfig_entry l = None \<and> kconfig_line parsed l = Inr parsed)
   \<and> (\<forall>d. parse_kconfig_file parsed text = Inr d \<longrightarrow>
       d = parsed @ kconfig_entries (readlines text)
       \<and> (\<forall>l \<in> set (readlines text). \<forall>k v. kconfig_entry l = Some (k, v) \<longrightarrow>
            dict_get d k = Some v
            \<and> (opt_is_on (strip l) \<longrightarrow> v \<noteq> ''is not set'')
            \<and> (opt_is_off (strip l) \<longrightarrow> v = ''is not set'')))
   \<and> ((\<exists>l \<in> set (readlines text). \<exists>w. list_all is_word w
          \<and> strip l = ''CONFIG_'' @ w @ ''=is not set'') \<longrightarrow>
       (\<exists>e. parse_kconfig_file parsed text = Inl e))
   \<and> (\<forall>i j k v v'. i < j \<and> j < length (readlines text)
          \<and> kconfig_entry (readlines text ! i) = Some (k, v)
          \<and> kconfig_entry (readlines text ! j) = Some (k, v') \<longrightarrow>
       (\<exists>e. parse_kconfig_file parsed text = Inl e))"
proof (intro conjI allI impI)
  fix l w v
  assume "list_all is_word w \<and> strip l = ''CONFIG_'' @ w @ ''='' @ v"
  then show "kconfig_entry l = Some (''CONFIG_'' @ w, v)"
    using kconfig_entry_on(1) by blast
next
  fix l w t
  assume "list_all is_word w \<and> strip l = ''# CONFIG_'' @ w @ '' is not set'' @ t"
  then show "kconfig_entry l = Some (''CONFIG_'' @ w, ''is not set'' @ t)"
    using kconfig_entry_off(1) by blast
next
  fix l
  assume "\<not> opt_is_on (strip l) \<and> \<not> opt_is_off (strip l)"
  then show "kconfig_entry l = None" by (simp add: kconfig_entry_None)
next
  fix l
  assume "\<not> opt_is_on (strip l) \<and> \<not> opt_is_off (strip l)"
  then show "kconfig_line parsed l = Inr parsed"
    by (simp add: kconfig_entry_None kconfig_line_ignored)
next
  fix d
  assume "parse_kconfig_file parsed text = Inr d"
  then show "d = parsed @ kconfig_entries (readlines text)"
    by (simp add: parse_kconfig_file_def parse_kconfig_lines_iff)
next
  fix d
  assume ok: "parse_kconfig_file parsed text = Inr d"
  let ?es = "kconfig_entries (readlines text)"
  from ok have bad: "\<forall>l \<in> set (readlines text). \<not> kconfig_bad l"
    and dist: "distinct (map fst ?es)"
    and new: "\<forall>k \<in> set (map fst ?es). \<not> dict_in k parsed" and d: "d = parsed @ ?es"
    by (simp_all add: parse_kconfig_file_def parse_kconfig_lines_iff)
  show "\<forall>l \<in> set (readlines text). \<forall>k v. kconfig_entry l = Some (k, v) \<longrightarrow>
          dict_get d k = Some v
          \<and> (opt_is_on (strip l) \<longrightarrow> v \<noteq> ''is not set'')
          \<and> (opt_is_off (strip l) \<longrightarrow> v = ''is not set'')"
  proof (intro ballI allI impI)
    fix l k v
    assume l: "l \<in> set (readlines text)" and e: "kconfig_entry l = Some (k, v)"
    from l bad have nb: "\<not> kconfig_bad l" by blast
    from l e have mem: "(k, v) \<in> set ?es" by (auto simp: set_kconfig_entries)
    then have "k \<in> set (map fst ?es)" by force
    with new have "map_of parsed k = None" by (auto simp: dict_in_def)
    moreover from dist mem have "map_of ?es k = Some v" by (rule map_of_is_SomeI)
    ultimately have stored: "dict_get d k = Some v"
      by (simp add: dict_get_def d map_add_def)
    have on: "v \<noteq> ''is not set''" if "opt_is_on (strip l)"
      using that nb e by (simp add: kconfig_bad_def)
    have off: "v = ''is not set''" if "opt_is_off (strip l)"
    proof -
      from that have "\<not> opt_is_on (strip l)" using opt_on_not_off by blast
      with nb e show ?thesis by (simp add: kconfig_bad_def)
    qed
    from stored on off
    show "dict_get d k = Some v
          \<and> (opt_is_on (strip l) \<longrightarrow> v \<noteq> ''is not set'')
          \<and> (opt_is_off (strip l) \<longrightarrow> v = ''is not set'')"
      by blast
  qed
next
  assume "\<exists>l \<in> set (readlines text). \<exists>w. list_all is_word w
          \<and> strip l = ''CONFIG_'' @ w @ ''=is not set''"
  then obtain l w where l: "l \<in> set (readlines text)" and w: "list_all is_word w"
    and s: "strip l = ''CONFIG_'' @ w @ ''='' @ ''is not set''"
    by auto
  from kconfig_entry_on [OF w s] have "kconfig_bad l" by (simp add: kconfig_bad_def)
  with l have "\<forall>d. parse_kconfig_file parsed text \<noteq> Inr d"
    by (auto simp: parse_kconfig_file_def parse_kconfig_lines_iff)
  then show "\<exists>e. parse_kconfig_file parsed text = Inl e" by (rule not_Inr_is_Inl)
next
  fix i j k v v'
  assume "i < j \<and> j < length (readlines text)
          \<and> kconfig_entry (readlines text ! i) = Some (k, v)
          \<and> kconfig_entry (readlines text ! j) = Some (k, v')"
  then have "\<not> distinct (map fst (kconfig_entries (readlines text)))"
    using duplicate_not_distinct by blast
  then have "\<forall>d. parse_kconfig_file parsed text \<noteq> Inr d"
    by (simp add: parse_kconfig_file_def parse_kconfig_lines_iff)
  then show "\<exists>e. parse_kconfig_file parsed text = Inl e" by (rule not_Inr_is_Inl)
qed

theorem parse_kconfig_file_entries_witness:
  "parse_kconfig_file [] ''CONFIG_BUG=y\<newline># CONFIG_DEVMEM is not set\<newline># comment\<newline>''
     = Inr [(''CONFIG_BUG'', ''y''), (''CONFIG_DEVMEM'', ''is not set'')]
   \<and> dict_get [(''CONFIG_BUG'', ''y''), (''CONFIG_DEVMEM'', ''is not set'')] ''CONFIG_DEVMEM''
     = Some ''is not set''
   \<and> (\<exists>e. parse_kconfig_file [] ''CONFIG_BUG=is not set\<newline>'' = Inl e)
   \<and> (\<exists>e. parse_kconfig_file [] ''CONFIG_BUG=y\<newline>CONFIG_BUG=m\<newline>'' = Inl e)"
proof -
  let ?t1 = "''CONFIG_BUG=y\<newline># CONFIG_DEVMEM is not set\<newline># comment\<newline>''"
  let ?t2 = "''CONFIG_BUG=is not set\<newline>''"
  let ?t3 = "''CONFIG_BUG=y\<newline>CONFIG_BUG=m\<newline>''"
  let ?d = "[(''CONFIG_BUG'', ''y''), (''CONFIG_DEVMEM'', ''is not set'')]"
  have run: "parse_kconfig_file [] ?t1 = Inr ?d"
    by code_simp
  have mem: "''# CONFIG_DEVMEM is not set\<newline>'' \<in> set (readlines ?t1)"
    by code_simp
  have entry: "kconfig_entry ''# CONFIG_DEVMEM is not set\<newline>''
      = Some (''CONFIG_DEVMEM'', ''is not set'')"
    by code_simp
  from parse_kconfig_file_entries [of "[]" ?t1] run
  have "\<forall>l \<in> set (readlines ?t1). \<forall>k v. kconfig_entry l = Some (k, v) \<longrightarrow>
          dict_get ?d k = Some v"
    by blast
  with mem entry have stored: "dict_get ?d ''CONFIG_DEVMEM'' = Some ''is not set''"
    by blast
  have l2: "''CONFIG_BUG=is not set\<newline>'' \<in> set (readlines ?t2)"
    by code_simp
  have w2: "list_all is_word ''BUG''"
    by code_simp
  have s2: "strip ''CONFIG_BUG=is not set\<newline>'' = ''CONFIG_'' @ ''BUG'' @ ''=is not set''"
    by code_simp
  from parse_kconfig_file_entries [of "[]" ?t2] l2 w2 s2
  have bad: "\<exists>e. parse_kconfig_file [] ?t2 = Inl e"
    by blast
  have n3: "(0::nat) < 1 \<and> 1 < length (readlines ?t3)"
    by code_simp
  have e30: "kconfig_entry (readlines ?t3 ! 0) = Some (''CONFIG_BUG'', ''y'')"
    by code_simp
  have e31: "kconfig_entry (readlines ?t3 ! 1) = Some (''CONFIG_BUG'', ''m'')"
    by code_simp
  from parse_kconfig_file_entries [of "[]" ?t3] n3 e30 e31
  have dup: "\<exists>e. parse_kconfig_file [] ?t3 = Inl e"
    by blast
  from run stored bad dup show ?thesis by blast
qed

text \<open>
  Claim C5 as it is written says that a line \<open># NAME is not set\<close> gives the entry
  \<open>(NAME, absent)\<close>. For the file of the single line \<open># CONFIG_FOO is not set\<close> the
  parser returns the entry \<open>(CONFIG_FOO, is not set)\<close>: the name is found in the
  dictionary, with a string for its value.
\<close>

theorem parse_kconfig_file_disabled_counterexample:
  "parse_kconfig_file [] ''# CONFIG_FOO is not set\<newline>'' = Inr [(''CONFIG_FOO'', ''is not set'')]
   \<and> dict_get [(''CONFIG_FOO'', ''is not set'')] ''CONFIG_FOO'' = Some ''is not set''
   \<and> dict_get [(''CONFIG_FOO'', ''is not set'')] ''CONFIG_FOO'' \<noteq> None"
  by code_simp

section \<open>The command line parser\<close>

lemma no_sep_run:
  assumes "c \<notin> set s"
  shows "takeWhile (\<lambda>x. x \<noteq> c) s = s" and "dropWhile (\<lambda>x. x \<noteq> c) s = []"
  using assms by (induction s) auto

lemma readlines_from_Nil_iff: "readlines_from cur s = [] \<longleftrightarrow> cur = [] \<and> s = []"
  by (induction s arbitrary: cur) auto

lemma readlines_from_no_newline:
  "CHR 0x0A \<notin> set s \<Longrightarrow> readlines_from cur s = (if cur @ s = [] then [] else [cur @ s])"
  by (induction s arbitrary: cur) auto

lemma readlines_from_newline:
  "CHR 0x0A \<notin> set a \<Longrightarrow>
     readlines_from cur (a @ CHR 0x0A # rest) = (cur @ a @ [CHR 0x0A]) # readlines_from [] rest"
  by (induction a arbitrary: cur) auto

lemma readline_rest_iff: "snd (readline text) = [] \<longleftrightarrow> length (readlines text) \<le> 1"
proof (cases "CHR 0x0A \<in> set text")
  case False
  then show ?thesis
    by (simp add: readline_def readlines_def readlines_from_no_newline no_sep_run)
next
  case True
  then obtain a rest where t: "text = a @ CHR 0x0A # rest" and a: "CHR 0x0A \<notin> set a"
    by (meson split_list_first)
  from a have "dropWhile (\<lambda>c. c \<noteq> CHR 0x0A) (a @ CHR 0x0A # rest) = CHR 0x0A # rest"
    by (induction a) auto
  with t a show ?thesis
    by (simp add: readline_def readlines_def readlines_from_newline readlines_from_Nil_iff)
qed

lemma readline_line_Nil_iff: "fst (readline text) = [] \<longleftrightarrow> text = []"
  by (cases "text") (auto simp: readline_def)

text \<open>The tokens of \<open>split\<close> are not empty and hold no whitespace.\<close>

lemma split_ws_tokens:
  assumes "\<forall>c \<in> set cur. \<not> isspace c" and "tok \<in> set (split_ws cur s)"
  shows "tok \<noteq> [] \<and> (\<forall>c \<in> set tok. \<not> isspace c)"
  using assms
proof (induction s arbitrary: cur)
  case Nil
  then show ?case by (auto split: if_splits)
next
  case (Cons a s)
  show ?case
  proof (cases "isspace a")
    case True
    with Cons.prems have "tok = cur \<and> cur \<noteq> [] \<or> tok \<in> set (split_ws [] s)"
      by (auto split: if_splits)
    then show ?thesis
      using Cons.IH [of "[]"] Cons.prems(1) by auto
  next
    case False
    with Cons.prems have "tok \<in> set (split_ws (cur @ [a]) s)" by simp
    moreover from False Cons.prems(1) have "\<forall>c \<in> set (cur @ [a]). \<not> isspace c" by simp
    ultimately show ?thesis using Cons.IH [of "cur @ [a]"] by blast
  qed
qed

lemma split_tokens: "tok \<in> set (split s) \<Longrightarrow> tok \<noteq> [] \<and> (\<forall>c \<in> set tok. \<not> isspace c)"
  using split_ws_tokens [of "[]" tok s] by (simp add: split_def)

lemma cmdline_opt_eq:
  "cmdline_opt parsed tok =
     Inr (dict_set parsed (token_name tok)
            (normalize_cmdline_options (token_name tok) (token_value tok)))"
proof (cases "CHR ''='' \<in> set tok")
  case True
  then show ?thesis
    by (simp add: cmdline_opt_def split1_def token_name_def token_value_def)
next
  case False
  then show ?thesis
    by (simp add: cmdline_opt_def token_name_def token_value_def no_sep_run)
qed

lemma dict_get_dict_set:
  "dict_get (dict_set d k v) k' = (if k' = k then Some v else dict_get d k')"
  by (induction d) (auto simp: dict_get_def)

lemma parse_cmdline_opts_get:
  "\<exists>d. parse_cmdline_opts parsed toks = Inr d
     \<and> (\<forall>n. dict_get d n =
          (case filter (\<lambda>tok. token_name tok = n) toks of
             [] \<Rightarrow> dict_get parsed n
           | t # ts \<Rightarrow> Some (normalize_cmdline_options n (token_value (last (t # ts))))))"
proof (induction toks arbitrary: parsed)
  case Nil
  show ?case by simp
next
  case (Cons tok toks)
  let ?p = "dict_set parsed (token_name tok)
              (normalize_cmdline_options (token_name tok) (token_value tok))"
  from Cons [of ?p] obtain d where d: "parse_cmdline_opts ?p toks = Inr d"
    and g: "\<And>n. dict_get d n =
          (case filter (\<lambda>tok. token_name tok = n) toks of
             [] \<Rightarrow> dict_get ?p n
           | t # ts \<Rightarrow> Some (normalize_cmdline_options n (token_value (last (t # ts)))))"
    by blast
  have "parse_cmdline_opts parsed (tok # toks) = Inr d"
    using d by (simp add: cmdline_opt_eq)
  moreover have "dict_get d n =
          (case filter (\<lambda>tok. token_name tok = n) (tok # toks) of
             [] \<Rightarrow> dict_get parsed n
           | t # ts \<Rightarrow> Some (normalize_cmdline_options n (token_value (last (t # ts)))))" for n
    unfolding g [of n]
    by (auto simp: dict_get_dict_set split: list.splits)
  ultimately show ?case by blast
qed

text \<open>
  Claim C6, as the code has it. \<open>parse_cmdline_file\<close> fails exactly when the file has
  more than one line, a line being what \<open>readline\<close> returns, so that an empty second
  line counts; the failure is the \<open>sys.exit\<close> with the message
  \<open>more than one line\<close>. Otherwise it returns a dictionary: a name that no token of
  the line has keeps what the given dictionary had, and a name that some token has is
  bound to the normalized value of the last token with this name. The name and the
  value of a token \<open>n=v\<close> are \<open>n\<close> and \<open>v\<close>; those of a bare token are the token and the
  empty string, which normalization leaves as it is and which is a value, not an
  absent one.
\<close>

theorem parse_cmdline_file_spec:
  \<open>((\<exists>e. parse_cmdline_file parsed fname text = Inl e) \<longleftrightarrow> length (readlines text) > 1)
   \<and> (length (readlines text) > 1 \<longrightarrow>
        parse_cmdline_file parsed fname text
          = Inl (SystemExit (''[!] ERROR: more than one line in "'' @ fname @ ''"'')))
   \<and> (length (readlines text) \<le> 1 \<longrightarrow>
        (\<exists>d. parse_cmdline_file parsed fname text = Inr d
           \<and> (\<forall>n. dict_get d n =
                (case filter (\<lambda>tok. token_name tok = n) (split (fst (readline text))) of
                   [] \<Rightarrow> dict_get parsed n
                 | t # ts \<Rightarrow>
                     Some (normalize_cmdline_options n (token_value (last (t # ts))))))))
   \<and> (\<forall>n v. CHR ''='' \<notin> set n \<longrightarrow>
        token_name (n @ ''='' @ v) = n \<and> token_value (n @ ''='' @ v) = v)
   \<and> (\<forall>tok. CHR ''='' \<notin> set tok \<longrightarrow>
        token_name tok = tok \<and> token_value tok = []
        \<and> normalize_cmdline_options tok [] = [])\<close>
proof -
  have more: "fst (readline (snd (readline text))) \<noteq> [] \<longleftrightarrow> length (readlines text) > 1"
    using readline_rest_iff [of "text"] by (auto simp: readline_line_Nil_iff)
  have fail: \<open>parse_cmdline_file parsed fname text
          = Inl (SystemExit (''[!] ERROR: more than one line in "'' @ fname @ ''"''))\<close>
    if "length (readlines text) > 1"
    using that more by (simp add: parse_cmdline_file_def Let_def case_prod_beta)
  have ok: "parse_cmdline_file parsed fname text
          = parse_cmdline_opts parsed (split (fst (readline text)))"
    if "length (readlines text) \<le> 1"
    using that more by (simp add: parse_cmdline_file_def Let_def case_prod_beta)
  from parse_cmdline_opts_get [of parsed "split (fst (readline text))"]
  obtain d where d: "parse_cmdline_opts parsed (split (fst (readline text))) = Inr d"
    and g: "\<forall>n. dict_get d n =
          (case filter (\<lambda>tok. token_name tok = n) (split (fst (readline text))) of
             [] \<Rightarrow> dict_get parsed n
           | t # ts \<Rightarrow> Some (normalize_cmdline_options n (token_value (last (t # ts)))))"
    by blast
  have c1: "(\<exists>e. parse_cmdline_file parsed fname text = Inl e) \<longleftrightarrow> length (readlines text) > 1"
  proof (cases "length (readlines text) > 1")
    case True
    with fail show ?thesis by simp
  next
    case False
    with ok d show ?thesis by simp
  qed
  have c3: "length (readlines text) \<le> 1 \<longrightarrow>
        (\<exists>d. parse_cmdline_file parsed fname text = Inr d
           \<and> (\<forall>n. dict_get d n =
                (case filter (\<lambda>tok. token_name tok = n) (split (fst (readline text))) of
                   [] \<Rightarrow> dict_get parsed n
                 | t # ts \<Rightarrow>
                     Some (normalize_cmdline_options n (token_value (last (t # ts)))))))"
    using ok d g by simp
  have c4: "token_name (n @ ''='' @ v) = n \<and> token_value (n @ ''='' @ v) = v"
    if "CHR ''='' \<notin> set n" for n v
    using that by (induction n) (auto simp: token_name_def token_value_def)
  have c5: "token_name tok = tok \<and> token_value tok = []
        \<and> normalize_cmdline_options tok [] = []"
    if "CHR ''='' \<notin> set tok" for tok
    using that
    by (simp add: token_name_def token_value_def normalize_cmdline_options_def no_sep_run)
  from c1 fail c3 c4 c5 show ?thesis by blast
qed

theorem parse_cmdline_file_spec_witness:
  \<open>parse_cmdline_file [] ''cmdline'' ''rodata=on nopti pti=on\<newline>''
     = Inr [(''rodata'', ''1''), (''nopti'', []), (''pti'', ''on'')]
   \<and> dict_get [(''rodata'', ''1''), (''nopti'', []), (''pti'', ''on'')] ''nopti'' = Some []
   \<and> parse_cmdline_file [] ''cmdline'' ''rodata=on\<newline>nopti\<newline>''
     = Inl (SystemExit ''[!] ERROR: more than one line in "cmdline"'')\<close>
proof -
  let ?t1 = "''rodata=on nopti pti=on\<newline>''"
  let ?t2 = "''rodata=on\<newline>nopti\<newline>''"
  let ?d = "[(''rodata'', ''1''), (''nopti'', []), (''pti'', ''on'')]"
  have run: "parse_cmdline_file [] ''cmdline'' ?t1 = Inr ?d"
    by code_simp
  have one: "length (readlines ?t1) \<le> 1"
    by code_simp
  have toks: "filter (\<lambda>tok. token_name tok = ''nopti'') (split (fst (readline ?t1)))
      = [''nopti'']"
    by code_simp
  have bare: "CHR ''='' \<notin> set ''nopti''"
    by simp
  note spec = parse_cmdline_file_spec [of "[]" "''cmdline''" ?t1]
  from spec bare have val: "token_value ''nopti'' = []"
    and norm: "normalize_cmdline_options ''nopti'' [] = []"
    by blast+
  from spec one run
  have "dict_get ?d ''nopti'' =
      (case filter (\<lambda>tok. token_name tok = ''nopti'') (split (fst (readline ?t1))) of
         [] \<Rightarrow> dict_get [] ''nopti''
       | t # ts \<Rightarrow> Some (normalize_cmdline_options ''nopti'' (token_value (last (t # ts)))))"
    by auto
  with toks val norm have stored: "dict_get ?d ''nopti'' = Some []"
    by simp
  have two: "length (readlines ?t2) > 1"
    by code_simp
  with parse_cmdline_file_spec [of "[]" "''cmdline''" ?t2]
  have \<open>parse_cmdline_file [] ''cmdline'' ?t2
      = Inl (SystemExit (''[!] ERROR: more than one line in "'' @ ''cmdline'' @ ''"''))\<close>
    by blast
  with run stored show ?thesis by simp
qed

text \<open>
  Claim C6 as it is written says that the parser fails exactly when the file has more
  than one non-empty line. The file of the line \<open>rodata=1\<close> followed by an empty line
  has one non-empty line, and the parser fails on it.
\<close>

theorem parse_cmdline_file_blank_line_counterexample:
  \<open>parse_cmdline_file [] ''cmdline'' ''rodata=1\<newline>\<newline>''
     = Inl (SystemExit ''[!] ERROR: more than one line in "cmdline"'')
   \<and> readlines ''rodata=1\<newline>\<newline>'' = [''rodata=1\<newline>'', ''\<newline>'']
   \<and> nonempty_lines ''rodata=1\<newline>\<newline>'' = [''rodata=1\<newline>'']\<close>
  by code_simp

section \<open>Population passes\<close>

text \<open>
  The checklist is a list of trees here. A check object that the catalogue shares
  between several compound checks stands at each of its places; a pass binds the same
  value at all of them, the one that the shared object gets.
\<close>

lemma populate_simple_eq:
  assumes "pass_ok d t" and "type_of opt \<noteq> ''complex''"
  shows "populate_simple_opt_with_data opt d t = Inr (populated d t opt)"
  using assms
  by (cases opt; cases d)
     (auto simp: populate_simple_opt_with_data_def pass_ok_def SIMPLE_OPTION_TYPES_def)

lemma populate_opt_eq:
  assumes "pass_ok d t"
  shows \<open>populate_opt_with_data opt d t =
     (if type_of opt = ''version''
      then Inl (AssertionError ''bad type "version" for a simple check'')
      else Inr (populated d t opt))\<close>
    and "populate_opts opts d t = Inr (map (populated d t) opts)"
  using assms
proof (induction opt d t and opts d t rule: populate_opt_with_data_populate_opts.induct)
  case (5 opt opts d data_type)
  then show ?case
    by (cases "type_of opt = ''complex''") (auto simp: populate_simple_eq)
qed (auto simp: populate_simple_eq)

lemma populate_with_data_eq:
  assumes "pass_ok d t"
  shows \<open>populate_with_data checklist d t =
     (if has_version checklist
      then Inl (AssertionError ''bad type "version" for a simple check'')
      else Inr (map (populated d t) checklist))\<close>
  by (induction checklist) (auto simp: populate_opt_eq(1) [OF assms] has_version_def)

lemma type_of_populated [simp]: "type_of (populated d t opt) = type_of opt"
  by (cases opt; cases d) auto

lemma has_version_populated [simp]:
  "has_version (map (populated d t) checklist) = has_version checklist"
  by (simp add: has_version_def)

lemma populated_commute:
  "t1 \<noteq> t2 \<Longrightarrow> populated d2 t2 (populated d1 t1 opt) = populated d1 t1 (populated d2 t2 opt)"
  by (induction opt) (auto split: pyval.splits)

lemma populated_idem: "populated d t (populated d t opt) = populated d t opt"
  by (induction opt) (auto split: pyval.splits)

lemma forget_populated: "forget t (populated d t opt) = forget t opt"
  by (induction opt) (auto split: pyval.splits)

text \<open>
  Claim C9. For two population passes of different kinds, each with the data of its
  kind: a pass that returns leaves a checklist that differs from the given one at most
  in the actual-state fields of the simple checks of its kind, which it binds from its
  data; the two passes in either order give the same result; and a pass run twice with
  the same data gives the same result as the pass run once. A pass fails, whatever
  its kind, exactly on a checklist with a \<open>VersionCheck\<close> at its top level.
\<close>

theorem populate_with_data_passes:
  assumes "pass_ok d1 t1" and "pass_ok d2 t2" and "t1 \<noteq> t2"
  shows "(\<forall>checklist'. populate_with_data checklist d1 t1 = Inr checklist' \<longrightarrow>
            checklist' = map (populated d1 t1) checklist
            \<and> map (forget t1) checklist' = map (forget t1) checklist)
     \<and> ((\<exists>e. populate_with_data checklist d1 t1 = Inl e) \<longleftrightarrow> has_version checklist)
     \<and> (case populate_with_data checklist d1 t1 of
           Inl e \<Rightarrow> Inl e
         | Inr checklist' \<Rightarrow> populate_with_data checklist' d2 t2)
       = (case populate_with_data checklist d2 t2 of
           Inl e \<Rightarrow> Inl e
         | Inr checklist' \<Rightarrow> populate_with_data checklist' d1 t1)
     \<and> (case populate_with_data checklist d1 t1 of
           Inl e \<Rightarrow> Inl e
         | Inr checklist' \<Rightarrow> populate_with_data checklist' d1 t1)
       = populate_with_data checklist d1 t1"
  by (simp add: populate_with_data_eq [OF assms(1)] populate_with_data_eq [OF assms(2)]
      populated_commute [OF assms(3)] populated_idem forget_populated)

theorem populate_with_data_passes_witness:
  "pass_ok (Dict [(''CONFIG_REFCOUNT_FULL'', ''y'')]) ''kconfig''
   \<and> pass_ok (Tuple [5, 10]) ''version''
   \<and> ''kconfig'' \<noteq> ''version''
   \<and> (case populate_with_data
              [OR [Kconfig \<lparr>name = ''CONFIG_REFCOUNT_FULL'', expected = Some ''y'',
                      decision = ''defconfig'', reason = ''self_protection'',
                      state = None, result = None\<rparr>,
                   Version \<lparr>ver_expected = (5, 5), ver = Tuple [], ver_result = None\<rparr>]
                 None]
              (Tuple [5, 10]) ''version'' of
         Inl e \<Rightarrow> Inl e
       | Inr checklist' \<Rightarrow>
           populate_with_data checklist' (Dict [(''CONFIG_REFCOUNT_FULL'', ''y'')]) ''kconfig'')
     = Inr [OR [Kconfig \<lparr>name = ''CONFIG_REFCOUNT_FULL'', expected = Some ''y'',
                   decision = ''defconfig'', reason = ''self_protection'',
                   state = Some ''y'', result = None\<rparr>,
                Version \<lparr>ver_expected = (5, 5), ver = Tuple [5, 10], ver_result = None\<rparr>]
              None]"
proof -
  let ?cl = "[OR [Kconfig \<lparr>name = ''CONFIG_REFCOUNT_FULL'', expected = Some ''y'',
                      decision = ''defconfig'', reason = ''self_protection'',
                      state = None, result = None\<rparr>,
                   Version \<lparr>ver_expected = (5, 5), ver = Tuple [], ver_result = None\<rparr>]
                 None]"
  let ?d1 = "Dict [(''CONFIG_REFCOUNT_FULL'', ''y'')]"
  let ?d2 = "Tuple [5, 10]"
  have ok1: "pass_ok ?d1 ''kconfig''" and ok2: "pass_ok ?d2 ''version''"
    by (simp_all add: pass_ok_def SIMPLE_OPTION_TYPES_def)
  have neq: "''kconfig'' \<noteq> ''version''"
    by simp
  have first: "(case populate_with_data ?cl ?d1 ''kconfig'' of
         Inl e \<Rightarrow> Inl e
       | Inr checklist' \<Rightarrow> populate_with_data checklist' ?d2 ''version'')
     = Inr [OR [Kconfig \<lparr>name = ''CONFIG_REFCOUNT_FULL'', expected = Some ''y'',
                   decision = ''defconfig'', reason = ''self_protection'',
                   state = Some ''y'', result = None\<rparr>,
                Version \<lparr>ver_expected = (5, 5), ver = Tuple [5, 10], ver_result = None\<rparr>]
              None]"
    by code_simp
  from populate_with_data_passes [OF ok1 ok2 neq, of ?cl] first ok1 ok2 neq
  show ?thesis by simp
qed

section \<open>Compound checks\<close>

text \<open>
  A compound check is a tree here: its children are taken as distinct objects. (A check
  object that stands at two places would show, at the place that is not evaluated, the
  result set at the other; the result of the compound check is the same.) The lemmas
  cut each loop at the child that decides: the children of an \<open>OR\<close> before the
  first one that passes, and the children of an \<open>AND\<close> after the last one that fails.
\<close>

lemma map_snd_enumerate [simp]: "map snd (enumerate n xs) = xs"
  by (induction xs arbitrary: n) simp_all

lemma OR_loop_failed_prefix:
  assumes "list_all2 check_fails pre pre'"
  shows "OR_loop (enumerate n (pre @ rest)) =
     (case OR_loop (enumerate (n + length pre) rest) of
        Inl e \<Rightarrow> Inl e
      | Inr (rest', r) \<Rightarrow> Inr (enumerate n pre' @ rest', r))"
  using assms
proof (induction pre pre' arbitrary: n rule: list_all2_induct)
  case Nil
  show ?case by (simp split: sum.split)
next
  case (Cons c cs c' cs')
  from Cons.hyps(1) obtain r where "check c = Inr c'" "result_of c' = Some r"
    "\<not> startswith r ''OK''"
    by (auto simp: check_fails_def failed_def split: option.splits)
  with Cons.IH [of "Suc n"] show ?case
    by (simp split: sum.split)
qed

lemma OR_check_winner:
  assumes "list_all2 check_fails pre pre'"
    and "check ci = Inr ci'" and "result_of ci' = Some r" and "startswith r ''OK''"
  shows "check (OR (pre @ ci # post) res) =
     (if pre = [] then Inr (OR (ci' # post) (Some r))
      else
        (case OR_more_info ci' r of
           Inl e \<Rightarrow> Inl e
         | Inr r' \<Rightarrow> Inr (OR (pre' @ ci' # post) (Some r'))))"
proof -
  from assms(1) have len: "length pre' = length pre"
    by (simp add: list_all2_lengthD)
  have "map snd (enumerate 0 pre' @ enumerate (length pre) (ci' # post)) = pre' @ ci' # post"
    by (simp only: map_append map_snd_enumerate)
  then have m: "map snd (enumerate 0 pre' @ (length pre, ci') # enumerate (Suc (length pre)) post)
      = pre' @ ci' # post"
    by simp
  show ?thesis
  proof (cases "pre = []")
    case True
    with assms show ?thesis by simp
  next
    case False
    then have "length pre \<noteq> 0" by simp
    with False m assms(2-4) show ?thesis
      by (simp add: OR_loop_failed_prefix [OF assms(1)] split: sum.split)
  qed
qed

lemma OR_loop_all_failed:
  assumes "list_all2 check_fails opts opts'"
  shows "OR_loop (enumerate n opts) = Inr (enumerate n opts', None)"
  using OR_loop_failed_prefix [OF assms, of n "[]"] by simp

lemma OR_check_all_failed:
  assumes "list_all2 check_fails (c0 # rest) (c0' # rest')"
  shows "check (OR (c0 # rest) res) = Inr (OR (c0' # rest') (result_of c0'))"
  using OR_loop_all_failed [OF assms, of 0]
  by (simp del: OR_loop.simps enumerate_simps add: enumerate_simps [symmetric])


lemma AND_loop_passed_suffix:
  assumes "list_all2 check_passes post post'" and "n \<noteq> 0"
  shows "AND_loop (rev (enumerate n post) @ rest) res =
     (case AND_loop rest res of
        Inl e \<Rightarrow> Inl e
      | Inr (rest', res') \<Rightarrow> Inr (rev (enumerate n post') @ rest', res'))"
  using assms
proof (induction post post' arbitrary: n rest rule: list_all2_induct)
  case Nil
  show ?case by (simp split: sum.split)
next
  case (Cons c cs c' cs')
  from Cons.hyps(1) obtain r where c: "check c = Inr c'" "result_of c' = Some r"
    "startswith r ''OK''"
    by (auto simp: check_passes_def passed_def split: option.splits)
  have "AND_loop (rev (enumerate n (c # cs)) @ rest) res
      = AND_loop (rev (enumerate (Suc n) cs) @ (n, c) # rest) res"
    by simp
  also have "\<dots> = (case AND_loop ((n, c) # rest) res of
        Inl e \<Rightarrow> Inl e
      | Inr (rest', res') \<Rightarrow> Inr (rev (enumerate (Suc n) cs') @ rest', res'))"
    by (rule Cons.IH) simp
  also have "\<dots> = (case AND_loop rest res of
        Inl e \<Rightarrow> Inl e
      | Inr (rest', res') \<Rightarrow> Inr (rev (enumerate n (c' # cs')) @ rest', res'))"
    using c Cons.prems by (simp split: sum.split)
  finally show ?case .
qed

lemma AND_check_blocked:
  assumes "list_all2 check_passes post post'"
    and "check ci = Inr ci'" and "result_of ci' = Some r" and "\<not> startswith r ''OK''"
  shows "check (AND (c0 # pre @ ci # post) res) =
     (case AND_describe ci' r of
        Inl e \<Rightarrow> Inl e
      | Inr r' \<Rightarrow> Inr (AND (c0 # pre @ ci' # post') (Some r')))"
proof -
  let ?i = "Suc (length pre)"
  let ?rest = "rev (enumerate (Suc 0) pre) @ [(0, c0)]"
  have e: "rev (enumerate 0 (c0 # pre @ ci # post))
      = rev (enumerate (Suc ?i) post) @ (?i, ci) # ?rest"
    by (simp add: enumerate_append_eq)
  have l: "AND_loop ((?i, ci) # ?rest) res =
     (case AND_describe ci' r of
        Inl e \<Rightarrow> Inl e
      | Inr r' \<Rightarrow> Inr ((?i, ci') # ?rest, Some r'))"
    using assms(2-4) by (simp split: sum.split)
  have m: "map snd (rev (rev (enumerate (Suc ?i) post') @ (?i, ci') # ?rest))
      = c0 # pre @ ci' # post'"
    by (simp add: rev_map [symmetric])
  show ?thesis
    unfolding check.simps e AND_loop_passed_suffix [OF assms(1), of "Suc ?i", simplified] l
    using m by (simp split: sum.split)
qed

lemma AND_check_all_passed:
  assumes "list_all2 check_passes aux aux'"
  shows "check (AND (c0 # aux) res) =
     (case check c0 of
        Inl e \<Rightarrow> Inl e
      | Inr c0' \<Rightarrow> Inr (AND (c0' # aux') (result_of c0')))"
proof -
  have e: "rev (enumerate 0 (c0 # aux)) = rev (enumerate (Suc 0) aux) @ [(0, c0)]"
    by simp
  have m: "map snd (rev (rev (enumerate (Suc 0) aux') @ [(0, c0')])) = c0' # aux'" for c0'
    by (simp add: rev_map [symmetric])
  show ?thesis
    unfolding check.simps e AND_loop_passed_suffix [OF assms, of "Suc 0", simplified]
    using m by (simp split: sum.split)
qed

subsection \<open>\<open>OR\<close>\<close>

text \<open>
  Claim C2, as the code has it. The children of an \<open>OR\<close> are evaluated in order up to
  the first one that passes, and the children after it are left as they were. When the
  first child passes, the result of the \<open>OR\<close> is the result of this child. When the
  children \<open>pre\<close> before \<open>ci\<close> fail (there is at least one) and \<open>ci\<close> passes with the
  result \<open>r\<close>, the result of the \<open>OR\<close> names \<open>ci\<close> when \<open>r\<close> is \<open>OK\<close>,
  \<open>OK: not found\<close> or \<open>OK: is present\<close>; it is \<open>r\<close> itself when \<open>r\<close> starts with
  \<open>OK: version\<close>; for any other \<open>r\<close> the evaluation ends with a failed assertion.
  When every child fails, the result of the \<open>OR\<close> is the result of its first child.
\<close>

theorem OR_check_first_pass:
  \<open>(check head = Inr head' \<and> passed head' \<longrightarrow>
      check (OR (head # post) res) = Inr (OR (head' # post) (result_of head')))
   \<and> (pre \<noteq> [] \<and> list_all2 check_fails pre pre' \<and> check ci = Inr ci'
        \<and> result_of ci' = Some r \<and> startswith r ''OK'' \<longrightarrow>
        (r = ''OK'' \<and> name_of ci' = Inr n \<and> expected_of ci' = Inr ex \<longrightarrow>
           check (OR (pre @ ci # post) res)
             = Inr (OR (pre' @ ci' # post) (Some (''OK: '' @ n @ '' "'' @ format_opt ex @ ''"''))))
        \<and> (r = ''OK: not found'' \<and> name_of ci' = Inr n \<longrightarrow>
           check (OR (pre @ ci # post) res)
             = Inr (OR (pre' @ ci' # post) (Some (''OK: '' @ n @ '' not found''))))
        \<and> (r = ''OK: is present'' \<and> name_of ci' = Inr n \<longrightarrow>
           check (OR (pre @ ci # post) res)
             = Inr (OR (pre' @ ci' # post) (Some (''OK: '' @ n @ '' is present''))))
        \<and> (startswith r ''OK: version'' \<longrightarrow>
           check (OR (pre @ ci # post) res) = Inr (OR (pre' @ ci' # post) (Some r)))
        \<and> (r \<noteq> ''OK'' \<and> r \<noteq> ''OK: not found'' \<and> r \<noteq> ''OK: is present''
            \<and> \<not> startswith r ''OK: version'' \<longrightarrow>
           check (OR (pre @ ci # post) res)
             = Inl (AssertionError (''unexpected OK description "'' @ r @ ''"''))))
   \<and> (list_all2 check_fails (head # rest) (head' # rest') \<longrightarrow>
        check (OR (head # rest) res) = Inr (OR (head' # rest') (result_of head')))\<close>
proof (intro conjI impI)
  assume "check head = Inr head' \<and> passed head'"
  then obtain r0 where "check head = Inr head'" "result_of head' = Some r0" "startswith r0 ''OK''"
    by (auto simp: passed_def split: option.splits)
  then show "check (OR (head # post) res) = Inr (OR (head' # post) (result_of head'))"
    using OR_check_winner [of "[]" "[]" head head' r0 post res] by simp
next
  assume "list_all2 check_fails (head # rest) (head' # rest')"
  then show "check (OR (head # rest) res) = Inr (OR (head' # rest') (result_of head'))"
    by (rule OR_check_all_failed)
next
  assume h: "pre \<noteq> [] \<and> list_all2 check_fails pre pre' \<and> check ci = Inr ci'
        \<and> result_of ci' = Some r \<and> startswith r ''OK''"
  then have w: "check (OR (pre @ ci # post) res) =
        (case OR_more_info ci' r of
           Inl e \<Rightarrow> Inl e
         | Inr r' \<Rightarrow> Inr (OR (pre' @ ci' # post) (Some r')))"
    using OR_check_winner [of pre pre' ci ci' r post res] by simp
  {
    assume "r = ''OK'' \<and> name_of ci' = Inr n \<and> expected_of ci' = Inr ex"
    then show \<open>check (OR (pre @ ci # post) res)
        = Inr (OR (pre' @ ci' # post) (Some (''OK: '' @ n @ '' "'' @ format_opt ex @ ''"'')))\<close>
      unfolding w by (simp add: OR_more_info_def)
  }
  {
    assume "r = ''OK: not found'' \<and> name_of ci' = Inr n"
    then show "check (OR (pre @ ci # post) res)
        = Inr (OR (pre' @ ci' # post) (Some (''OK: '' @ n @ '' not found'')))"
      unfolding w by (simp add: OR_more_info_def)
  }
  {
    assume "r = ''OK: is present'' \<and> name_of ci' = Inr n"
    then show "check (OR (pre @ ci # post) res)
        = Inr (OR (pre' @ ci' # post) (Some (''OK: '' @ n @ '' is present'')))"
      unfolding w by (simp add: OR_more_info_def)
  }
  {
    assume v: "startswith r ''OK: version''"
    then obtain t where "r = ''OK: version'' @ t" by (auto simp: startswith_append)
    with v show "check (OR (pre @ ci # post) res) = Inr (OR (pre' @ ci' # post) (Some r))"
      unfolding w by (simp add: OR_more_info_def)
  }
  {
    assume "r \<noteq> ''OK'' \<and> r \<noteq> ''OK: not found'' \<and> r \<noteq> ''OK: is present''
            \<and> \<not> startswith r ''OK: version''"
    then show \<open>check (OR (pre @ ci # post) res)
        = Inl (AssertionError (''unexpected OK description "'' @ r @ ''"''))\<close>
      unfolding w by (simp add: OR_more_info_def)
  }
qed

theorem OR_check_first_pass_witness:
  \<open>check (OR [Kconfig \<lparr>name = ''CONFIG_STACKPROTECTOR'', expected = Some ''y'',
                  decision = ''defconfig'', reason = ''self_protection'', state = None,
                  result = None\<rparr>,
               Kconfig \<lparr>name = ''CONFIG_CC_STACKPROTECTOR'', expected = Some ''y'',
                  decision = ''defconfig'', reason = ''self_protection'', state = Some ''y'',
                  result = None\<rparr>,
               Kconfig \<lparr>name = ''CONFIG_CC_STACKPROTECTOR_REGULAR'', expected = Some ''y'',
                  decision = ''defconfig'', reason = ''self_protection'', state = Some ''y'',
                  result = None\<rparr>] None)
     = Inr (OR [Kconfig \<lparr>name = ''CONFIG_STACKPROTECTOR'', expected = Some ''y'',
                  decision = ''defconfig'', reason = ''self_protection'', state = None,
                  result = Some ''FAIL: not found''\<rparr>,
                Kconfig \<lparr>name = ''CONFIG_CC_STACKPROTECTOR'', expected = Some ''y'',
                  decision = ''defconfig'', reason = ''self_protection'', state = Some ''y'',
                  result = Some ''OK''\<rparr>,
                Kconfig \<lparr>name = ''CONFIG_CC_STACKPROTECTOR_REGULAR'', expected = Some ''y'',
                  decision = ''defconfig'', reason = ''self_protection'', state = Some ''y'',
                  result = None\<rparr>]
             (Some ''OK: CONFIG_CC_STACKPROTECTOR "y"''))\<close>
proof -
  let ?c0 = "Kconfig \<lparr>name = ''CONFIG_STACKPROTECTOR'', expected = Some ''y'',
                  decision = ''defconfig'', reason = ''self_protection'', state = None,
                  result = None\<rparr>"
  let ?c0' = "Kconfig \<lparr>name = ''CONFIG_STACKPROTECTOR'', expected = Some ''y'',
                  decision = ''defconfig'', reason = ''self_protection'', state = None,
                  result = Some ''FAIL: not found''\<rparr>"
  let ?c1 = "Kconfig \<lparr>name = ''CONFIG_CC_STACKPROTECTOR'', expected = Some ''y'',
                  decision = ''defconfig'', reason = ''self_protection'', state = Some ''y'',
                  result = None\<rparr>"
  let ?c1' = "Kconfig \<lparr>name = ''CONFIG_CC_STACKPROTECTOR'', expected = Some ''y'',
                  decision = ''defconfig'', reason = ''self_protection'', state = Some ''y'',
                  result = Some ''OK''\<rparr>"
  let ?c2 = "Kconfig \<lparr>name = ''CONFIG_CC_STACKPROTECTOR_REGULAR'', expected = Some ''y'',
                  decision = ''defconfig'', reason = ''self_protection'', state = Some ''y'',
                  result = None\<rparr>"
  have pre: "[?c0] \<noteq> [] \<and> list_all2 check_fails [?c0] [?c0']"
    by (simp add: check_fails_def failed_def OptCheck_check_def startswith_def)
  have ci: "check ?c1 = Inr ?c1' \<and> result_of ?c1' = Some ''OK'' \<and> startswith ''OK'' ''OK''"
    by (simp add: OptCheck_check_def startswith_def)
  have nm: "''OK'' = ''OK'' \<and> name_of ?c1' = Inr ''CONFIG_CC_STACKPROTECTOR''
      \<and> expected_of ?c1' = Inr (Some ''y'')"
    by simp
  from OR_check_first_pass [where pre = "[?c0]" and pre' = "[?c0']" and ci = ?c1
      and ci' = ?c1' and r = "''OK''" and n = "''CONFIG_CC_STACKPROTECTOR''"
      and ex = "Some ''y''" and post = "[?c2]" and res = None] pre ci nm
  have \<open>check (OR ([?c0] @ ?c1 # [?c2]) None)
      = Inr (OR ([?c0'] @ ?c1' # [?c2])
          (Some (''OK: '' @ ''CONFIG_CC_STACKPROTECTOR'' @ '' "'' @ format_opt (Some ''y'') @ ''"'')))\<close>
    by blast
  then show ?thesis by (simp add: format_opt_def)
qed

text \<open>
  Claim C2 as it is written gives every \<open>OR\<close> with a child that passes the result of
  the first such child. Here the second child is an \<open>OR\<close> that passes through its own
  second child, with the result \<open>OK: CONFIG_C "y"\<close>, and the evaluation of the outer
  \<open>OR\<close> ends with a failed assertion.
\<close>

theorem OR_check_nested_counterexample:
  \<open>check (OR [Kconfig \<lparr>name = ''CONFIG_B'', expected = Some ''y'', decision = ''kspp'',
                  reason = ''self_protection'', state = None, result = None\<rparr>,
               Kconfig \<lparr>name = ''CONFIG_C'', expected = Some ''y'', decision = ''kspp'',
                  reason = ''self_protection'', state = Some ''y'', result = None\<rparr>] None)
     = Inr (OR [Kconfig \<lparr>name = ''CONFIG_B'', expected = Some ''y'', decision = ''kspp'',
                  reason = ''self_protection'', state = None,
                  result = Some ''FAIL: not found''\<rparr>,
                Kconfig \<lparr>name = ''CONFIG_C'', expected = Some ''y'', decision = ''kspp'',
                  reason = ''self_protection'', state = Some ''y'', result = Some ''OK''\<rparr>]
             (Some ''OK: CONFIG_C "y"''))
   \<and> check (OR [Kconfig \<lparr>name = ''CONFIG_A'', expected = Some ''y'', decision = ''kspp'',
                  reason = ''self_protection'', state = None, result = None\<rparr>,
               OR [Kconfig \<lparr>name = ''CONFIG_B'', expected = Some ''y'', decision = ''kspp'',
                      reason = ''self_protection'', state = None, result = None\<rparr>,
                   Kconfig \<lparr>name = ''CONFIG_C'', expected = Some ''y'', decision = ''kspp'',
                      reason = ''self_protection'', state = Some ''y'', result = None\<rparr>]
                 None] None)
     = Inl (AssertionError ''unexpected OK description "OK: CONFIG_C "y""'')\<close>
  by code_simp

text \<open>
  Claim C10. When the first child of an \<open>OR\<close> that passes is not its first child and
  has the result \<open>r\<close>, the evaluation ends with a failed assertion exactly when \<open>r\<close> is
  none of \<open>OK\<close>, \<open>OK: not found\<close>, \<open>OK: is present\<close> and does not start with
  \<open>OK: version\<close>; the message of the assertion quotes \<open>r\<close>. So an \<open>OR\<close> that has a
  result had a winning child with one of these four kinds of result.
\<close>

theorem OR_check_unexpected_description:
  assumes "pre \<noteq> []" and "list_all2 check_fails pre pre'"
    and "check ci = Inr ci'" and "result_of ci' = Some r" and "startswith r ''OK''"
  shows \<open>((\<exists>msg. check (OR (pre @ ci # post) res) = Inl (AssertionError msg)) \<longleftrightarrow>
        \<not> (r = ''OK'' \<or> r = ''OK: not found'' \<or> r = ''OK: is present''
           \<or> startswith r ''OK: version''))
     \<and> (\<not> (r = ''OK'' \<or> r = ''OK: not found'' \<or> r = ''OK: is present''
           \<or> startswith r ''OK: version'') \<longrightarrow>
        check (OR (pre @ ci # post) res)
          = Inl (AssertionError (''unexpected OK description "'' @ r @ ''"'')))
     \<and> ((\<exists>opt'. check (OR (pre @ ci # post) res) = Inr opt') \<longrightarrow>
        r = ''OK'' \<or> r = ''OK: not found'' \<or> r = ''OK: is present''
        \<or> startswith r ''OK: version'')\<close>
proof -
  have w: "check (OR (pre @ ci # post) res) =
        (case OR_more_info ci' r of
           Inl e \<Rightarrow> Inl e
         | Inr r' \<Rightarrow> Inr (OR (pre' @ ci' # post) (Some r')))"
    using OR_check_winner [OF assms(2-5), of post res] assms(1) by simp
  have nm: "name_of ci' \<noteq> Inl (AssertionError msg)" for msg
    by (induction ci' rule: name_of.induct) simp_all
  have ex: "expected_of ci' \<noteq> Inl (AssertionError msg)" for msg
    by (induction ci' rule: expected_of.induct) simp_all
  show ?thesis
    unfolding w using nm ex
    by (auto simp: OR_more_info_def split: sum.splits)
qed

theorem OR_check_unexpected_description_witness:
  \<open>check (OR [Kconfig \<lparr>name = ''CONFIG_A'', expected = Some ''y'', decision = ''kspp'',
                  reason = ''self_protection'', state = None, result = None\<rparr>,
               OR [Kconfig \<lparr>name = ''CONFIG_B'', expected = Some ''y'', decision = ''kspp'',
                      reason = ''self_protection'', state = None, result = None\<rparr>,
                   Kconfig \<lparr>name = ''CONFIG_C'', expected = None, decision = ''kspp'',
                      reason = ''self_protection'', state = Some ''y'', result = None\<rparr>]
                 None] None)
     = Inl (AssertionError ''unexpected OK description "OK: CONFIG_C is present"'')\<close>
proof -
  let ?a = "Kconfig \<lparr>name = ''CONFIG_A'', expected = Some ''y'', decision = ''kspp'',
                  reason = ''self_protection'', state = None, result = None\<rparr>"
  let ?a' = "Kconfig \<lparr>name = ''CONFIG_A'', expected = Some ''y'', decision = ''kspp'',
                  reason = ''self_protection'', state = None,
                  result = Some ''FAIL: not found''\<rparr>"
  let ?b = "Kconfig \<lparr>name = ''CONFIG_B'', expected = Some ''y'', decision = ''kspp'',
                      reason = ''self_protection'', state = None, result = None\<rparr>"
  let ?b' = "Kconfig \<lparr>name = ''CONFIG_B'', expected = Some ''y'', decision = ''kspp'',
                      reason = ''self_protection'', state = None,
                      result = Some ''FAIL: not found''\<rparr>"
  let ?c = "Kconfig \<lparr>name = ''CONFIG_C'', expected = None, decision = ''kspp'',
                      reason = ''self_protection'', state = Some ''y'', result = None\<rparr>"
  let ?c' = "Kconfig \<lparr>name = ''CONFIG_C'', expected = None, decision = ''kspp'',
                      reason = ''self_protection'', state = Some ''y'',
                      result = Some ''OK: is present''\<rparr>"
  let ?r = "''OK: CONFIG_C is present''"
  have pre: "[?a] \<noteq> []"
    by simp
  have fails: "list_all2 check_fails [?a] [?a']"
    by (simp add: check_fails_def failed_def OptCheck_check_def startswith_def)
  have inner: "check (OR [?b, ?c] None) = Inr (OR [?b', ?c'] (Some ?r))"
    by code_simp
  have res: "result_of (OR [?b', ?c'] (Some ?r)) = Some ?r"
    by simp
  have ok: "startswith ?r ''OK''"
    by (simp add: startswith_def)
  have other: "\<not> (?r = ''OK'' \<or> ?r = ''OK: not found'' \<or> ?r = ''OK: is present''
      \<or> startswith ?r ''OK: version'')"
    by (simp add: startswith_def)
  from OR_check_unexpected_description [OF pre fails inner res ok, of "[]" None] other
  have \<open>check (OR ([?a] @ OR [?b, ?c] None # []) None)
      = Inl (AssertionError (''unexpected OK description "'' @ ?r @ ''"''))\<close>
    by blast
  then show ?thesis by simp
qed

subsection \<open>\<open>AND\<close>\<close>

text \<open>
  Claim C3, as the code has it. The children of an \<open>AND\<close> are evaluated from the last
  one to the first. When all the children after the first one pass, the first child is
  evaluated and the result of the \<open>AND\<close> is its result. When \<open>ci\<close> is not the first
  child, the children \<open>post\<close> after it pass and \<open>ci\<close> fails with the result \<open>r\<close>, the
  evaluation stops there: the first child and the children \<open>pre\<close> between it and \<open>ci\<close>
  are left as they were. The result of the \<open>AND\<close> then names \<open>ci\<close> when \<open>r\<close> starts
  with \<open>FAIL: "\<close> or is \<open>FAIL: not found\<close> or \<open>FAIL: not present\<close>; it is \<open>r\<close> itself
  when \<open>r\<close> starts with \<open>FAIL: version\<close>; for any other \<open>r\<close> the evaluation ends with a
  failed assertion.
\<close>

theorem AND_check_prerequisites:
  \<open>(list_all2 check_passes aux aux' \<and> check head = Inr head' \<longrightarrow>
      check (AND (head # aux) res) = Inr (AND (head' # aux') (result_of head')))
   \<and> (list_all2 check_passes post post' \<and> check ci = Inr ci'
        \<and> result_of ci' = Some r \<and> \<not> startswith r ''OK'' \<longrightarrow>
        ((startswith r ''FAIL: "'' \<or> r = ''FAIL: not found'')
            \<and> name_of ci' = Inr n \<and> expected_of ci' = Inr ex \<longrightarrow>
           check (AND (head # pre @ ci # post) res)
             = Inr (AND (head # pre @ ci' # post')
                 (Some (''FAIL: '' @ n @ '' not "'' @ format_opt ex @ ''"''))))
        \<and> (r = ''FAIL: not present'' \<and> name_of ci' = Inr n \<longrightarrow>
           check (AND (head # pre @ ci # post) res)
             = Inr (AND (head # pre @ ci' # post') (Some (''FAIL: '' @ n @ '' not present''))))
        \<and> (startswith r ''FAIL: version'' \<longrightarrow>
           check (AND (head # pre @ ci # post) res)
             = Inr (AND (head # pre @ ci' # post') (Some r)))
        \<and> (\<not> startswith r ''FAIL: "'' \<and> r \<noteq> ''FAIL: not found''
            \<and> r \<noteq> ''FAIL: not present'' \<and> \<not> startswith r ''FAIL: version'' \<longrightarrow>
           check (AND (head # pre @ ci # post) res)
             = Inl (AssertionError (''unexpected FAIL description "'' @ r @ ''"''))))\<close>
proof (intro conjI impI)
  assume "list_all2 check_passes aux aux' \<and> check head = Inr head'"
  then show "check (AND (head # aux) res) = Inr (AND (head' # aux') (result_of head'))"
    using AND_check_all_passed [of aux aux' head res] by simp
next
  assume h: "list_all2 check_passes post post' \<and> check ci = Inr ci'
        \<and> result_of ci' = Some r \<and> \<not> startswith r ''OK''"
  then have w: "check (AND (head # pre @ ci # post) res) =
     (case AND_describe ci' r of
        Inl e \<Rightarrow> Inl e
      | Inr r' \<Rightarrow> Inr (AND (head # pre @ ci' # post') (Some r')))"
    using AND_check_blocked [of post post' ci ci' r head pre res] by simp
  {
    assume \<open>(startswith r ''FAIL: "'' \<or> r = ''FAIL: not found'')
            \<and> name_of ci' = Inr n \<and> expected_of ci' = Inr ex\<close>
    then show \<open>check (AND (head # pre @ ci # post) res)
        = Inr (AND (head # pre @ ci' # post')
            (Some (''FAIL: '' @ n @ '' not "'' @ format_opt ex @ ''"'')))\<close>
      unfolding w by (auto simp: AND_describe_def)
  }
  {
    assume "r = ''FAIL: not present'' \<and> name_of ci' = Inr n"
    then show "check (AND (head # pre @ ci # post) res)
        = Inr (AND (head # pre @ ci' # post') (Some (''FAIL: '' @ n @ '' not present'')))"
      unfolding w by (simp add: AND_describe_def startswith_def)
  }
  {
    assume v: "startswith r ''FAIL: version''"
    then obtain t where "r = ''FAIL: version'' @ t" by (auto simp: startswith_append)
    then show "check (AND (head # pre @ ci # post) res)
        = Inr (AND (head # pre @ ci' # post') (Some r))"
      unfolding w by (simp add: AND_describe_def startswith_def)
  }
  {
    assume \<open>\<not> startswith r ''FAIL: "'' \<and> r \<noteq> ''FAIL: not found''
            \<and> r \<noteq> ''FAIL: not present'' \<and> \<not> startswith r ''FAIL: version''\<close>
    then show \<open>check (AND (head # pre @ ci # post) res)
        = Inl (AssertionError (''unexpected FAIL description "'' @ r @ ''"''))\<close>
      unfolding w by (simp add: AND_describe_def)
  }
qed

theorem AND_check_prerequisites_witness:
  \<open>check (AND [Kconfig \<lparr>name = ''CONFIG_STACKLEAK_METRICS'', expected = Some ''is not set'',
                  decision = ''clipos'', reason = ''self_protection'', state = None,
                  result = None\<rparr>,
               Kconfig \<lparr>name = ''CONFIG_GCC_PLUGIN_STACKLEAK'', expected = Some ''y'',
                  decision = ''kspp'', reason = ''self_protection'', state = Some ''y'',
                  result = None\<rparr>,
               Kconfig \<lparr>name = ''CONFIG_CC_IS_GCC'', expected = Some ''y'',
                  decision = ''-'', reason = ''-'', state = None,
                  result = None\<rparr>,
               Kconfig \<lparr>name = ''CONFIG_GCC_PLUGINS'', expected = Some ''y'',
                  decision = ''defconfig'', reason = ''self_protection'', state = Some ''y'',
                  result = None\<rparr>] None)
     = Inr (AND [Kconfig \<lparr>name = ''CONFIG_STACKLEAK_METRICS'', expected = Some ''is not set'',
                  decision = ''clipos'', reason = ''self_protection'', state = None,
                  result = None\<rparr>,
                Kconfig \<lparr>name = ''CONFIG_GCC_PLUGIN_STACKLEAK'', expected = Some ''y'',
                  decision = ''kspp'', reason = ''self_protection'', state = Some ''y'',
                  result = None\<rparr>,
                Kconfig \<lparr>name = ''CONFIG_CC_IS_GCC'', expected = Some ''y'',
                  decision = ''-'', reason = ''-'', state = None,
                  result = Some ''FAIL: not found''\<rparr>,
                Kconfig \<lparr>name = ''CONFIG_GCC_PLUGINS'', expected = Some ''y'',
                  decision = ''defconfig'', reason = ''self_protection'', state = Some ''y'',
                  result = Some ''OK''\<rparr>]
             (Some ''FAIL: CONFIG_CC_IS_GCC not "y"''))\<close>
proof -
  let ?h = "Kconfig \<lparr>name = ''CONFIG_STACKLEAK_METRICS'', expected = Some ''is not set'',
                  decision = ''clipos'', reason = ''self_protection'', state = None,
                  result = None\<rparr>"
  let ?p = "Kconfig \<lparr>name = ''CONFIG_GCC_PLUGIN_STACKLEAK'', expected = Some ''y'',
                  decision = ''kspp'', reason = ''self_protection'', state = Some ''y'',
                  result = None\<rparr>"
  let ?c = "Kconfig \<lparr>name = ''CONFIG_CC_IS_GCC'', expected = Some ''y'',
                  decision = ''-'', reason = ''-'', state = None,
                  result = None\<rparr>"
  let ?c' = "Kconfig \<lparr>name = ''CONFIG_CC_IS_GCC'', expected = Some ''y'',
                  decision = ''-'', reason = ''-'', state = None,
                  result = Some ''FAIL: not found''\<rparr>"
  let ?q = "Kconfig \<lparr>name = ''CONFIG_GCC_PLUGINS'', expected = Some ''y'',
                  decision = ''defconfig'', reason = ''self_protection'', state = Some ''y'',
                  result = None\<rparr>"
  let ?q' = "Kconfig \<lparr>name = ''CONFIG_GCC_PLUGINS'', expected = Some ''y'',
                  decision = ''defconfig'', reason = ''self_protection'', state = Some ''y'',
                  result = Some ''OK''\<rparr>"
  have h: "list_all2 check_passes [?q] [?q'] \<and> check ?c = Inr ?c'
      \<and> result_of ?c' = Some ''FAIL: not found'' \<and> \<not> startswith ''FAIL: not found'' ''OK''"
    by (simp add: check_passes_def passed_def OptCheck_check_def startswith_def)
  have nm: \<open>(startswith ''FAIL: not found'' ''FAIL: "'' \<or> ''FAIL: not found'' = ''FAIL: not found'')
      \<and> name_of ?c' = Inr ''CONFIG_CC_IS_GCC'' \<and> expected_of ?c' = Inr (Some ''y'')\<close>
    by simp
  from AND_check_prerequisites [where post = "[?q]" and post' = "[?q']" and ci = ?c
      and ci' = ?c' and r = "''FAIL: not found''" and n = "''CONFIG_CC_IS_GCC''"
      and ex = "Some ''y''" and pre = "[?p]" and head = ?h and res = None] h nm
  have \<open>check (AND (?h # [?p] @ ?c # [?q]) None)
      = Inr (AND (?h # [?p] @ ?c' # [?q'])
          (Some (''FAIL: '' @ ''CONFIG_CC_IS_GCC'' @ '' not "'' @ format_opt (Some ''y'') @ ''"'')))\<close>
    by blast
  then show ?thesis by (simp add: format_opt_def)
qed

text \<open>
  Claim C3 as it is written gives every \<open>AND\<close> with a failing child after the first
  one a result that names this child. Here the second child is an \<open>AND\<close> that fails
  through its own second child, with the result \<open>FAIL: CONFIG_C not "y"\<close>, and the
  evaluation of the outer \<open>AND\<close> ends with a failed assertion.
\<close>

theorem AND_check_nested_counterexample:
  \<open>check (AND [Kconfig \<lparr>name = ''CONFIG_B'', expected = Some ''y'', decision = ''kspp'',
                  reason = ''self_protection'', state = Some ''y'', result = None\<rparr>,
               Kconfig \<lparr>name = ''CONFIG_C'', expected = Some ''y'', decision = ''kspp'',
                  reason = ''self_protection'', state = None, result = None\<rparr>] None)
     = Inr (AND [Kconfig \<lparr>name = ''CONFIG_B'', expected = Some ''y'', decision = ''kspp'',
                  reason = ''self_protection'', state = Some ''y'', result = None\<rparr>,
                Kconfig \<lparr>name = ''CONFIG_C'', expected = Some ''y'', decision = ''kspp'',
                  reason = ''self_protection'', state = None,
                  result = Some ''FAIL: not found''\<rparr>]
             (Some ''FAIL: CONFIG_C not "y"''))
   \<and> check (AND [Kconfig \<lparr>name = ''CONFIG_A'', expected = Some ''y'', decision = ''kspp'',
                  reason = ''self_protection'', state = Some ''y'', result = None\<rparr>,
               AND [Kconfig \<lparr>name = ''CONFIG_B'', expected = Some ''y'', decision = ''kspp'',
                      reason = ''self_protection'', state = Some ''y'', result = None\<rparr>,
                   Kconfig \<lparr>name = ''CONFIG_C'', expected = Some ''y'', decision = ''kspp'',
                      reason = ''self_protection'', state = None, result = None\<rparr>]
                 None] None)
     = Inl (AssertionError ''unexpected FAIL description "FAIL: CONFIG_C not "y""'')\<close>
  by code_simp

end
